theory Spec2Isabelle
  imports Main
begin

section \<open>Python text and values\<close>

text \<open>
  A Python \<open>str\<close> is modelled as a \<open>string\<close> whose characters are code points:
  the model covers the code points below 256, and \<open>length\<close> counts code points as
  Python's \<open>len\<close> does.
\<close>

abbreviation squote :: char where
  "squote \<equiv> CHR 0x27"

definition is_space :: "char \<Rightarrow> bool" where
  \<comment> \<open>\<open>str.isspace\<close> on one code point; also the class \<open>\s\<close> of \<open>re\<close>\<close>
  "is_space c = (of_char c \<in> set [9, 10, 11, 12, 13, 28, 29, 30, 31, 32, 133, 160 :: nat])"

definition lstrip :: "string \<Rightarrow> string" where
  "lstrip s = dropWhile is_space s"

definition rstrip :: "string \<Rightarrow> string" where
  "rstrip s = rev (dropWhile is_space (rev s))"

definition strip :: "string \<Rightarrow> string" where
  "strip s = rstrip (lstrip s)"

definition lstrip_chars :: "string \<Rightarrow> string \<Rightarrow> string" where
  \<comment> \<open>\<open>s.lstrip(chars)\<close>\<close>
  "lstrip_chars chars s = dropWhile (\<lambda>c. c \<in> set chars) s"

definition rstrip_chars :: "string \<Rightarrow> string \<Rightarrow> string" where
  \<comment> \<open>\<open>s.rstrip(chars)\<close>\<close>
  "rstrip_chars chars s = rev (dropWhile (\<lambda>c. c \<in> set chars) (rev s))"

definition lower_char :: "char \<Rightarrow> char" where
  "lower_char c =
     (let n = (of_char c :: nat)
      in if (65 \<le> n \<and> n \<le> 90) \<or> (192 \<le> n \<and> n \<le> 222 \<and> n \<noteq> 215)
         then char_of (n + 32) else c)"

definition lower :: "string \<Rightarrow> string" where
  "lower s = map lower_char s"

definition startswith :: "string \<Rightarrow> string \<Rightarrow> bool" where
  "startswith s p = (take (length p) s = p)"

definition endswith :: "string \<Rightarrow> string \<Rightarrow> bool" where
  "endswith s p = (length p \<le> length s \<and> drop (length s - length p) s = p)"

fun join :: "string \<Rightarrow> string list \<Rightarrow> string" where
  "join sep [] = []"
| "join sep [x] = x"
| "join sep (x # y # ys) = x @ sep @ join sep (y # ys)"

fun split_on :: "char \<Rightarrow> string \<Rightarrow> string list" where
  \<comment> \<open>\<open>s.split(sep)\<close> for a one-character separator\<close>
  "split_on sep [] = [[]]"
| "split_on sep (x # xs) =
     (if x = sep then [] # split_on sep xs
      else (case split_on sep xs of [] \<Rightarrow> [[x]] | y # ys \<Rightarrow> (x # y) # ys))"

definition digit_char :: "nat \<Rightarrow> char" where
  "digit_char n = ''0123456789'' ! (n mod 10)"

definition digit_of :: "char \<Rightarrow> nat option" where
  \<comment> \<open>the value of a character of the class \<open>\d\<close>\<close>
  "digit_of c = map_of
     [(CHR ''0'', 0), (CHR ''1'', 1), (CHR ''2'', 2), (CHR ''3'', 3), (CHR ''4'', 4),
      (CHR ''5'', 5), (CHR ''6'', 6), (CHR ''7'', 7), (CHR ''8'', 8), (CHR ''9'', 9)] c"

fun str_nat :: "nat \<Rightarrow> string" where
  "str_nat n = (if n < 10 then [digit_char n] else str_nat (n div 10) @ [digit_char n])"

declare str_nat.simps [simp del]

definition str_int :: "int \<Rightarrow> string" where
  \<comment> \<open>\<open>str(i)\<close> of a Python integer\<close>
  "str_int i = (if i < 0 then CHR ''-'' # str_nat (nat (- i)) else str_nat (nat i))"

definition zpad :: "nat \<Rightarrow> nat \<Rightarrow> string" where
  \<comment> \<open>\<open>"%0wd" % n\<close>\<close>
  "zpad w n = replicate (w - length (str_nat n)) (CHR ''0'') @ str_nat n"

text \<open>
  A float is kept only through the two observations the code makes of it: its truth value
  and its \<open>str()\<close> form.
\<close>

record pyfloat =
  float_nonzero :: bool
  float_str :: string

record pydate =
  year :: nat
  month :: nat
  day :: nat

record pydatetime = pydate +
  hour :: nat
  minute :: nat
  second :: nat
  microsecond :: nat
  utcoffset :: "int option"  \<comment> \<open>offset in seconds of an aware value, \<open>None\<close> for a naive one\<close>

datatype pyvalue =
    VNone
  | VBool bool
  | VInt int
  | VFloat pyfloat
  | VStr string
  | VDateTime pydatetime
  | VDate pydate

datatype exn =
    ValueError string
  | ODataClientError string
  | LLMClientError string
  | PlanParseError string
  | JSONDecodeError
  | HttpxTimeoutException
  | HttpxNetworkError
  | AiohttpClientError
  | AiohttpServerTimeoutError
  | AsyncioTimeoutError
  | RetryError
  | OtherException string

definition format_offset :: "int option \<Rightarrow> string" where
  \<comment> \<open>the UTC offset suffix of \<open>datetime.isoformat\<close>\<close>
  "format_offset off =
     (case off of
        None \<Rightarrow> []
      | Some o_s \<Rightarrow>
          (let a = nat (abs o_s); hh = a div 3600; mm = (a mod 3600) div 60; ss = a mod 60
           in (if o_s < 0 then ''-'' else ''+'') @ zpad 2 hh @ '':'' @ zpad 2 mm
              @ (if ss \<noteq> 0 then '':'' @ zpad 2 ss else [])))"

definition date_isoformat :: "nat \<Rightarrow> nat \<Rightarrow> nat \<Rightarrow> string" where
  "date_isoformat y m d = zpad 4 y @ ''-'' @ zpad 2 m @ ''-'' @ zpad 2 d"

definition isoformat :: "char \<Rightarrow> pydatetime \<Rightarrow> string" where
  \<comment> \<open>\<open>datetime.isoformat(sep)\<close>\<close>
  "isoformat sep t =
     date_isoformat (year t) (month t) (day t) @ [sep]
     @ zpad 2 (hour t) @ '':'' @ zpad 2 (minute t) @ '':'' @ zpad 2 (second t)
     @ (if microsecond t \<noteq> 0 then ''.'' @ zpad 6 (microsecond t) else [])
     @ format_offset (utcoffset t)"

fun py_str :: "pyvalue \<Rightarrow> string" where
  \<comment> \<open>\<open>str(value)\<close>\<close>
  "py_str VNone = ''None''"
| "py_str (VBool b) = (if b then ''True'' else ''False'')"
| "py_str (VInt i) = str_int i"
| "py_str (VFloat f) = float_str f"
| "py_str (VStr s) = s"
| "py_str (VDateTime t) = isoformat (CHR '' '') t"
| "py_str (VDate d) = date_isoformat (year d) (month d) (day d)"

fun py_bool :: "pyvalue \<Rightarrow> bool" where
  \<comment> \<open>\<open>bool(value)\<close>\<close>
  "py_bool VNone = False"
| "py_bool (VBool b) = b"
| "py_bool (VInt i) = (i \<noteq> 0)"
| "py_bool (VFloat f) = float_nonzero f"
| "py_bool (VStr s) = (s \<noteq> [])"
| "py_bool (VDateTime t) = True"
| "py_bool (VDate d) = True"

section \<open>\<open>datetime.strptime\<close> for the formats of the filter builder\<close>

text \<open>
  The standard library turns a format into a regular expression, one group per directive
  with its alternatives in a fixed order, a run of white space into \<open>\s+\<close>, any other
  character into itself, and matches it ignoring case at the start of the text. A
  directive is modelled by the list of its matches, in the order in which the
  backtracking matcher tries them.
\<close>

datatype directive = DY | Dm | Dd | DH | DM | DS | Lit char | Spaces | Unsupported

definition two_digits :: "(nat \<Rightarrow> nat \<Rightarrow> bool) \<Rightarrow> string \<Rightarrow> (nat \<times> string) list" where
  "two_digits ok s =
     (case s of
        a # b # r \<Rightarrow>
          (case (digit_of a, digit_of b) of
             (Some x, Some y) \<Rightarrow> if ok x y then [(10 * x + y, r)] else []
           | _ \<Rightarrow> [])
      | _ \<Rightarrow> [])"

definition one_digit :: "(nat \<Rightarrow> bool) \<Rightarrow> string \<Rightarrow> (nat \<times> string) list" where
  "one_digit ok s =
     (case s of
        a # r \<Rightarrow> (case digit_of a of Some x \<Rightarrow> if ok x then [(x, r)] else [] | None \<Rightarrow> [])
      | [] \<Rightarrow> [])"

definition re_Y :: "string \<Rightarrow> (nat \<times> string) list" where
  \<comment> \<open>\<open>\d\d\d\d\<close>\<close>
  "re_Y s =
     (case s of
        a # b # c # d # r \<Rightarrow>
          (case (digit_of a, digit_of b, digit_of c, digit_of d) of
             (Some w, Some x, Some y, Some z) \<Rightarrow> [(1000 * w + 100 * x + 10 * y + z, r)]
           | _ \<Rightarrow> [])
      | _ \<Rightarrow> [])"

definition re_m :: "string \<Rightarrow> (nat \<times> string) list" where
  \<comment> \<open>\<open>1[0-2]|0[1-9]|[1-9]\<close>\<close>
  "re_m s = two_digits (\<lambda>x y. x = 1 \<and> y \<le> 2) s @ two_digits (\<lambda>x y. x = 0 \<and> 1 \<le> y) s
            @ one_digit (\<lambda>x. 1 \<le> x) s"

definition re_d :: "string \<Rightarrow> (nat \<times> string) list" where
  \<comment> \<open>\<open>3[0-1]|[1-2]\d|0[1-9]|[1-9]| [1-9]\<close>\<close>
  "re_d s = two_digits (\<lambda>x y. x = 3 \<and> y \<le> 1) s @ two_digits (\<lambda>x y. 1 \<le> x \<and> x \<le> 2) s
            @ two_digits (\<lambda>x y. x = 0 \<and> 1 \<le> y) s @ one_digit (\<lambda>x. 1 \<le> x) s
            @ (case s of a # r \<Rightarrow> if a = CHR '' '' then one_digit (\<lambda>x. 1 \<le> x) r else []
               | [] \<Rightarrow> [])"

definition re_H :: "string \<Rightarrow> (nat \<times> string) list" where
  \<comment> \<open>\<open>2[0-3]|[0-1]\d|\d\<close>\<close>
  "re_H s = two_digits (\<lambda>x y. x = 2 \<and> y \<le> 3) s @ two_digits (\<lambda>x y. x \<le> 1) s
            @ one_digit (\<lambda>x. True) s"

definition re_M :: "string \<Rightarrow> (nat \<times> string) list" where
  \<comment> \<open>\<open>[0-5]\d|\d\<close>\<close>
  "re_M s = two_digits (\<lambda>x y. x \<le> 5) s @ one_digit (\<lambda>x. True) s"

definition re_S :: "string \<Rightarrow> (nat \<times> string) list" where
  \<comment> \<open>\<open>6[0-1]|[0-5]\d|\d\<close>\<close>
  "re_S s = two_digits (\<lambda>x y. x = 6 \<and> y \<le> 1) s @ two_digits (\<lambda>x y. x \<le> 5) s
            @ one_digit (\<lambda>x. True) s"

definition re_spaces :: "string \<Rightarrow> string list" where
  \<comment> \<open>\<open>\s+\<close>, greedy: the longest run first\<close>
  "re_spaces s = map (\<lambda>k. drop k s) (rev [1 ..< Suc (length (takeWhile is_space s))])"

definition re_lit :: "char \<Rightarrow> string \<Rightarrow> string list" where
  "re_lit c s = (case s of a # r \<Rightarrow> if lower_char a = lower_char c then [r] else [] | [] \<Rightarrow> [])"

fun step :: "directive \<Rightarrow> string \<Rightarrow> pydatetime \<Rightarrow> (pydatetime \<times> string) list" where
  "step DY s t = map (\<lambda>(v, r). (t\<lparr>year := v\<rparr>, r)) (re_Y s)"
| "step Dm s t = map (\<lambda>(v, r). (t\<lparr>month := v\<rparr>, r)) (re_m s)"
| "step Dd s t = map (\<lambda>(v, r). (t\<lparr>day := v\<rparr>, r)) (re_d s)"
| "step DH s t = map (\<lambda>(v, r). (t\<lparr>hour := v\<rparr>, r)) (re_H s)"
| "step DM s t = map (\<lambda>(v, r). (t\<lparr>minute := v\<rparr>, r)) (re_M s)"
| "step DS s t = map (\<lambda>(v, r). (t\<lparr>second := v\<rparr>, r)) (re_S s)"
| "step (Lit c) s t = map (\<lambda>r. (t, r)) (re_lit c s)"
| "step Spaces s t = map (\<lambda>r. (t, r)) (re_spaces s)"
| "step Unsupported s t = []"

fun first_some :: "('a \<Rightarrow> 'b option) \<Rightarrow> 'a list \<Rightarrow> 'b option" where
  "first_some f [] = None"
| "first_some f (x # xs) = (case f x of Some y \<Rightarrow> Some y | None \<Rightarrow> first_some f xs)"

primrec match_format :: "directive list \<Rightarrow> string \<Rightarrow> pydatetime \<Rightarrow> (pydatetime \<times> string) option" where
  \<comment> \<open>the first match of the compiled expression at the start of the text\<close>
  "match_format [] = (\<lambda>s t. Some (t, s))"
| "match_format (d # ds) = (\<lambda>s t. first_some (\<lambda>(t', r). match_format ds r t') (step d s t))"

definition directive_of :: "char \<Rightarrow> directive" where
  "directive_of c =
     (if c = CHR ''Y'' then DY else if c = CHR ''m'' then Dm else if c = CHR ''d'' then Dd
      else if c = CHR ''H'' then DH else if c = CHR ''M'' then DM else if c = CHR ''S'' then DS
      else Unsupported)"

fun compile_format :: "string \<Rightarrow> directive list" where
  "compile_format [] = []"
| "compile_format [c] = (if is_space c then [Spaces] else [Lit c])"
| "compile_format (c # d # r) =
     (if c = CHR ''%'' then directive_of d # compile_format r
      else if is_space c then (if is_space d then compile_format (d # r)
                               else Spaces # compile_format (d # r))
      else Lit c # compile_format (d # r))"

definition is_leap :: "nat \<Rightarrow> bool" where
  "is_leap y = (y mod 4 = 0 \<and> (y mod 100 \<noteq> 0 \<or> y mod 400 = 0))"

definition days_in_month :: "nat \<Rightarrow> nat \<Rightarrow> nat" where
  "days_in_month y m =
     (if m = 2 then (if is_leap y then 29 else 28)
      else if m \<in> set [4, 6, 9, 11] then 30 else 31)"

definition valid_datetime :: "pydatetime \<Rightarrow> bool" where
  \<comment> \<open>the range checks of the \<open>datetime\<close> constructor\<close>
  "valid_datetime t =
     (1 \<le> year t \<and> year t \<le> 9999 \<and> 1 \<le> month t \<and> month t \<le> 12
      \<and> 1 \<le> day t \<and> day t \<le> days_in_month (year t) (month t)
      \<and> hour t \<le> 23 \<and> minute t \<le> 59 \<and> second t \<le> 59)"

definition strptime_default :: pydatetime where
  "strptime_default =
     \<lparr>year = 1900, month = 1, day = 1, hour = 0, minute = 0, second = 0, microsecond = 0,
      utcoffset = None\<rparr>"

definition strptime :: "string \<Rightarrow> string \<Rightarrow> pydatetime option" where
  \<comment> \<open>\<open>datetime.strptime(data, fmt)\<close>; \<open>None\<close> stands for its \<open>ValueError\<close>\<close>
  "strptime data fmt =
     (case match_format (compile_format fmt) data strptime_default of
        None \<Rightarrow> None
      | Some (t, rest) \<Rightarrow> if rest \<noteq> [] then None else if valid_datetime t then Some t else None)"

section \<open>Filter model and filter builder\<close>

datatype FilterOperator = EQ | NE | GT | LT | GE | LE

fun operator_value :: "FilterOperator \<Rightarrow> string" where
  "operator_value EQ = ''eq''"
| "operator_value NE = ''ne''"
| "operator_value GT = ''gt''"
| "operator_value LT = ''lt''"
| "operator_value GE = ''ge''"
| "operator_value LE = ''le''"

datatype value_type = TString | TNumber | TBoolean | TDatetime | TGuid

datatype logic = And | Or

fun logic_str :: "logic \<Rightarrow> string" where
  "logic_str And = ''and''"
| "logic_str Or = ''or''"

record FilterCondition =
  field :: string
  operator :: FilterOperator
  val :: pyvalue
  val_type :: value_type

datatype FilterGroup = FilterGroup (logic: logic) (conditions: "member list")
  and member = Cond FilterCondition | Nested FilterGroup

definition split_once :: "char \<Rightarrow> string \<Rightarrow> string list" where
  \<comment> \<open>\<open>s.split(sep, 1)\<close>\<close>
  "split_once sep s =
     (if sep \<in> set s then [takeWhile (\<lambda>c. c \<noteq> sep) s, tl (dropWhile (\<lambda>c. c \<noteq> sep) s)]
      else [s])"

definition patterns :: "(string \<times> bool) list" where
  "patterns =
     [(''%Y-%m-%dT%H:%M:%S'', False),
      (''%Y-%m-%dT%H:%M'', True),
      (''%Y-%m-%d'', True),
      (''%d.%m.%Y %H:%M:%S'', False),
      (''%d.%m.%Y %H:%M'', False),
      (''%d.%m.%Y'', True)]"

fun try_patterns :: "(string \<times> bool) list \<Rightarrow> string \<Rightarrow> string option" where
  "try_patterns [] raw = None"
| "try_patterns ((fmt, add_time) # ps) raw =
     (case strptime raw fmt of
        Some parsed \<Rightarrow>
          Some (isoformat (CHR ''T'')
                 ((if add_time
                   then parsed\<lparr>hour := 0, minute := 0, second := 0, microsecond := 0\<rparr>
                   else parsed)\<lparr>microsecond := 0\<rparr>))
      | None \<Rightarrow> try_patterns ps raw)"

definition normalize_datetime :: "pyvalue \<Rightarrow> exn + string" where
  "normalize_datetime v =
     (case v of
        VDateTime t \<Rightarrow> Inr (isoformat (CHR ''T'') (t\<lparr>microsecond := 0\<rparr>))
      | VDate d \<Rightarrow>
          Inr (isoformat (CHR ''T'')
                \<lparr>year = year d, month = month d, day = day d, hour = 0, minute = 0,
                 second = 0, microsecond = 0, utcoffset = None\<rparr>)
      | _ \<Rightarrow>
          (let raw = strip (py_str v)
           in case try_patterns patterns raw of
                Some r \<Rightarrow> Inr r
              | None \<Rightarrow>
                  if CHR ''T'' \<in> set raw then
                    (let parts = split_once (CHR ''T'') raw;
                         date_part = hd parts;
                         time_part = (if length parts > 1 then parts ! 1 else ''00:00:00'');
                         time_bits = split_on (CHR '':'') time_part;
                         time_bits = time_bits @ replicate (3 - length time_bits) ''00'';
                         normalized_time = join '':'' (take 3 time_bits)
                     in Inr (date_part @ ''T'' @ normalized_time))
                  else Inl (ValueError (''Unrecognized datetime format: '' @ py_str v))))"

definition format_value :: "pyvalue \<Rightarrow> value_type \<Rightarrow> exn + string" where
  "format_value v vt =
     (case vt of
        TString \<Rightarrow>
          Inr ([squote] @ concat (map (\<lambda>c. if c = squote then [squote, squote] else [c]) (py_str v))
               @ [squote])
      | TDatetime \<Rightarrow>
          (case normalize_datetime v of
             Inl e \<Rightarrow> Inl e
           | Inr normalized \<Rightarrow> Inr (''datetime'' @ [squote] @ normalized @ [squote]))
      | TGuid \<Rightarrow> Inr (''guid'' @ [squote] @ py_str v @ [squote])
      | TBoolean \<Rightarrow> Inr (if py_bool v then ''true'' else ''false'')
      | TNumber \<Rightarrow> Inr (py_str v))"

definition render_condition :: "FilterCondition \<Rightarrow> exn + string" where
  "render_condition cond =
     (case format_value (val cond) (val_type cond) of
        Inl e \<Rightarrow> Inl e
      | Inr v \<Rightarrow> Inr (field cond @ '' '' @ operator_value (operator cond) @ '' '' @ v))"

definition wrap_part :: "string \<Rightarrow> string" where
  \<comment> \<open>\<open>p if (p.startswith("(") and p.endswith(")")) else f"({p})"\<close>\<close>
  "wrap_part p = (if startswith p ''('' \<and> endswith p '')'' then p else ''('' @ p @ '')'')"

fun build_group :: "FilterGroup \<Rightarrow> exn + string"
  and build_parts :: "member list \<Rightarrow> exn + string list" where
  "build_group (FilterGroup lg conds) =
     (case build_parts conds of
        Inl e \<Rightarrow> Inl e
      | Inr parts \<Rightarrow>
          if parts = [] then Inr []
          else if length parts = 1 then Inr (hd parts)
          else Inr (join ('' '' @ logic_str lg @ '' '') (map wrap_part parts)))"
| "build_parts [] = Inr []"
| "build_parts (Cond c # ms) =
     (case render_condition c of
        Inl e \<Rightarrow> Inl e
      | Inr p \<Rightarrow> (case build_parts ms of Inl e \<Rightarrow> Inl e | Inr ps \<Rightarrow> Inr (p # ps)))"
| "build_parts (Nested g # ms) =
     (case build_group g of
        Inl e \<Rightarrow> Inl e
      | Inr nested \<Rightarrow>
          (case build_parts ms of
             Inl e \<Rightarrow> Inl e
           | Inr ps \<Rightarrow> Inr (if nested \<noteq> [] then (''('' @ nested @ '')'') # ps else ps)))"

definition ODataFilterBuilder_build :: "FilterGroup option \<Rightarrow> exn + string" where
  "ODataFilterBuilder_build grp =
     (case grp of
        None \<Rightarrow> Inr []
      | Some g \<Rightarrow> if conditions g = [] then Inr [] else build_group g)"

section \<open>Query plan and plan validator\<close>

datatype direction = Asc | Desc

record QueryPlan =
  entity :: string
  filter_group :: "FilterGroup option"
  select :: "string list"
  orderby :: "(string \<times> direction) list"
  top :: "int option"
  expand :: "string list"

text \<open>
  A record of the metadata index, read with \<open>item.get\<close>: a missing key is \<open>None\<close>.
\<close>

record metadata_item =
  item_type :: "string option"
  item_name :: "string option"
  item_fields :: "string list option"

definition fmt_opt :: "string option \<Rightarrow> string" where
  \<comment> \<open>an optional text inside an f-string\<close>
  "fmt_opt x = (case x of None \<Rightarrow> ''None'' | Some s \<Rightarrow> s)"

definition item_entity :: "metadata_item \<Rightarrow> string" where
  \<comment> \<open>\<open>f"{item.get('type')}_{item.get('name')}"\<close>\<close>
  "item_entity item = fmt_opt (item_type item) @ ''_'' @ fmt_opt (item_name item)"

record PlanValidator =
  entities :: "string set"
  fields_by_entity :: "string \<rightharpoonup> string set"

definition build_fields_index :: "metadata_item list \<Rightarrow> (string \<rightharpoonup> string set)" where
  "build_fields_index metadata =
     fold (\<lambda>item index.
             index(item_entity item \<mapsto> set (case item_fields item of None \<Rightarrow> [] | Some fs \<Rightarrow> fs)))
          metadata Map.empty"

definition PlanValidator_init :: "metadata_item list \<Rightarrow> PlanValidator" where
  "PlanValidator_init metadata =
     \<lparr>entities = set (map item_entity metadata),
      fields_by_entity = build_fields_index metadata\<rparr>"

definition get_fields :: "PlanValidator \<Rightarrow> string \<Rightarrow> string set" where
  \<comment> \<open>\<open>self.fields_by_entity.get(plan.entity, set())\<close>\<close>
  "get_fields v e = (case fields_by_entity v e of None \<Rightarrow> {} | Some fs \<Rightarrow> fs)"

fun check_fields :: "FilterGroup \<Rightarrow> string set \<Rightarrow> string list"
  and check_members :: "member list \<Rightarrow> string set \<Rightarrow> string list" where
  "check_fields (FilterGroup lg conds) valid_fields = check_members conds valid_fields"
| "check_members [] valid_fields = []"
| "check_members (Nested g # ms) valid_fields =
     check_fields g valid_fields @ check_members ms valid_fields"
| "check_members (Cond c # ms) valid_fields =
     (if valid_fields \<noteq> {} \<and> field c \<notin> valid_fields
      then [''Unknown field in filter: '' @ field c] else [])
     @ check_members ms valid_fields"

definition validate :: "PlanValidator \<Rightarrow> QueryPlan \<Rightarrow> string list" where
  "validate v plan =
     (let valid_fields = get_fields v (entity plan)
      in (if entity plan \<notin> entities v then [''Unknown entity: '' @ entity plan] else [])
         @ (case filter_group plan of None \<Rightarrow> [] | Some g \<Rightarrow> check_fields g valid_fields)
         @ concat (map (\<lambda>f. if valid_fields \<noteq> {} \<and> f \<notin> valid_fields
                              then [''Unknown field in select: '' @ f] else [])
                       (select plan))
         @ concat (map (\<lambda>(f, _). if valid_fields \<noteq> {} \<and> f \<notin> valid_fields
                                   then [''Unknown field in orderby: '' @ f] else [])
                       (orderby plan)))"

fun fix_group :: "FilterGroup \<Rightarrow> (string \<Rightarrow> string) \<Rightarrow> FilterGroup"
  and fix_members :: "member list \<Rightarrow> (string \<Rightarrow> string) \<Rightarrow> member list" where
  "fix_group (FilterGroup lg conds) fixer = FilterGroup lg (fix_members conds fixer)"
| "fix_members [] fixer = []"
| "fix_members (Nested g # ms) fixer = Nested (fix_group g fixer) # fix_members ms fixer"
| "fix_members (Cond c # ms) fixer = Cond (c\<lparr>field := fixer (field c)\<rparr>) # fix_members ms fixer"

text \<open>
  The fuzzy matcher is a library outside the repository. \<open>extract_one name choices\<close>
  stands for \<open>process.extractOne(name, list(choices), scorer=fuzz.WRatio)\<close>, reduced to
  the choice it returns, if any.
\<close>

definition suggest_fixes ::
  "(string \<Rightarrow> string set \<Rightarrow> string option) \<Rightarrow> PlanValidator \<Rightarrow> QueryPlan \<Rightarrow> string list \<Rightarrow> QueryPlan" where
  "suggest_fixes extract_one v plan errors =
     (if errors = [] then plan
      else
        (let valid_fields = get_fields v (entity plan)
         in if valid_fields = {} then plan
            else
              (let fix_field = (\<lambda>name. case extract_one name valid_fields of
                                          Some best \<Rightarrow> best | None \<Rightarrow> name)
               in plan\<lparr>filter_group := map_option (\<lambda>g. fix_group g fix_field) (filter_group plan),
                       select := map (\<lambda>f. if f \<notin> valid_fields then fix_field f else f) (select plan),
                       orderby := map (\<lambda>(f, direction).
                                         (if f \<notin> valid_fields then fix_field f else f, direction))
                                      (orderby plan)\<rparr>)))"

section \<open>URL builder\<close>

definition utf8 :: "char \<Rightarrow> nat list" where
  \<comment> \<open>the UTF-8 bytes of a code point below 256\<close>
  "utf8 c = (let n = (of_char c :: nat)
             in if n < 128 then [n] else [192 + n div 64, 128 + n mod 64])"

definition hex_digit :: "nat \<Rightarrow> char" where
  "hex_digit n = ''0123456789ABCDEF'' ! (n mod 16)"

definition always_safe :: string where
  "always_safe = ''ABCDEFGHIJKLMNOPQRSTUVWXYZabcdefghijklmnopqrstuvwxyz0123456789_.-~''"

definition quote_byte :: "string \<Rightarrow> nat \<Rightarrow> string" where
  "quote_byte safe b =
     (if b < 128 \<and> char_of b \<in> set (always_safe @ safe) then [char_of b]
      else [CHR ''%'', hex_digit (b div 16), hex_digit b])"

definition quote :: "string \<Rightarrow> string \<Rightarrow> string" where
  \<comment> \<open>\<open>urllib.parse.quote(s, safe=safe)\<close>\<close>
  "quote s safe = concat (map (quote_byte safe) (concat (map utf8 s)))"

definition prefixes :: "string list" where
  "prefixes = [''Catalog'', ''Document'', ''InformationRegister'', ''AccumulationRegister'',
               ''ChartOfAccounts'']"

fun match_prefix :: "string list \<Rightarrow> string \<Rightarrow> string" where
  \<comment> \<open>the loop over the prefixes, on the stripped name\<close>
  "match_prefix [] ent = ent"
| "match_prefix (prefix # ps) ent =
     (if startswith (lower ent) (lower prefix)
      then prefix @ ''_'' @ lstrip_chars ''_'' (drop (length prefix) ent)
      else match_prefix ps ent)"

definition normalize_entity_name :: "string \<Rightarrow> string" where
  "normalize_entity_name ent = (if ent = [] then ent else match_prefix prefixes (strip ent))"

text \<open>
  A \<open>dict\<close> with text keys is an association list with distinct keys, in insertion order.
\<close>

type_synonym params = "(string \<times> pyvalue) list"

fun dict_set :: "params \<Rightarrow> string \<Rightarrow> pyvalue \<Rightarrow> params" where
  \<comment> \<open>\<open>d[key] = value\<close>: a present key keeps its place\<close>
  "dict_set [] k v = [(k, v)]"
| "dict_set ((k', v') # ps) k v = (if k' = k then (k, v) # ps else (k', v') # dict_set ps k v)"

definition SAFE_CHARS :: string where
  "SAFE_CHARS = ''$'' @ [squote] @ ''(),=<>:+-''"

definition encode_filter :: "string \<Rightarrow> string" where
  "encode_filter filter_str = quote filter_str SAFE_CHARS"

definition is_str :: "pyvalue \<Rightarrow> bool" where
  "is_str v = (case v of VStr _ \<Rightarrow> True | _ \<Rightarrow> False)"

definition query_part :: "string \<times> pyvalue \<Rightarrow> string list" where
  \<comment> \<open>one turn of the loop over the parameters\<close>
  "query_part kv =
     (case kv of (key, value) \<Rightarrow>
        if value = VNone \<or> value = VStr [] then []
        else
          (let encoded_value =
                 (if key = ''$filter'' \<and> is_str value then encode_filter (py_str value)
                  else quote (py_str value) (''$,:'' @ [squote]));
               encoded_key = quote key ''$''
           in [encoded_key @ ''='' @ encoded_value]))"

definition url_root :: "string \<Rightarrow> string \<Rightarrow> string" where
  "url_root base_url ent =
     (let base = rstrip_chars ''/'' base_url;
          lower_base = lower base;
          normalized_base =
            (if endswith lower_base ''/odata/standard.odata'' then base
             else if endswith lower_base ''/odata'' then base @ ''/standard.odata''
             else base @ ''/odata/standard.odata'');
          fixed_entity = normalize_entity_name ent;
          encoded_entity = quote fixed_entity ''$()_-~.''
      in normalized_base @ ''/'' @ encoded_entity)"

definition ODataUrlBuilder_build :: "string \<Rightarrow> string \<Rightarrow> params option \<Rightarrow> exn + string" where
  "ODataUrlBuilder_build base_url ent ps =
     (if base_url = [] then Inl (ODataClientError ''OData base URL is not configured'')
      else if ent = [] then Inl (ODataClientError ''OData entity is not specified'')
      else
        (let normalized_params = (case ps of None \<Rightarrow> [] | Some d \<Rightarrow> d);
             normalized_params =
               (if ''$format'' \<notin> fst ` set normalized_params
                then dict_set normalized_params ''$format'' (VStr ''json'')
                else normalized_params);
             root = url_root base_url ent;
             query_parts = concat (map query_part normalized_params)
         in if query_parts = [] then Inr root
            else Inr (root @ ''?'' @ join ''&'' query_parts)))"

section \<open>Normalisation of raw parameters\<close>

fun contains :: "string \<Rightarrow> string \<Rightarrow> bool" where
  \<comment> \<open>\<open>p in s\<close>\<close>
  "contains [] p = (p = [])"
| "contains (c # s) p = (startswith (c # s) p \<or> contains s p)"

definition digits :: "nat \<Rightarrow> string \<Rightarrow> bool" where
  \<comment> \<open>the text starts with \<open>n\<close> characters of the class \<open>\d\<close>\<close>
  "digits n s = (n \<le> length s \<and> (\<forall>c \<in> set (take n s). digit_of c \<noteq> None))"

definition match_date_body :: "string \<Rightarrow> nat option" where
  \<comment> \<open>\<open>\d{4}-\d{2}-\d{2}(?:[Tt]\d{2}:\d{2}:\d{2})?'\<close> at the start of the text: the length of
      the group, the longer alternative first\<close>
  "match_date_body s =
     (if digits 4 s \<and> startswith (drop 4 s) ''-'' \<and> digits 2 (drop 5 s)
         \<and> startswith (drop 7 s) ''-'' \<and> digits 2 (drop 8 s)
      then
        (if (startswith (drop 10 s) ''T'' \<or> startswith (drop 10 s) ''t'') \<and> digits 2 (drop 11 s)
            \<and> startswith (drop 13 s) '':'' \<and> digits 2 (drop 14 s)
            \<and> startswith (drop 16 s) '':'' \<and> digits 2 (drop 17 s)
            \<and> startswith (drop 19 s) [squote]
         then Some 19
         else if startswith (drop 10 s) [squote] then Some 10
         else None)
      else None)"

definition match_date :: "string \<Rightarrow> string \<Rightarrow> (string \<times> nat) option" where
  \<comment> \<open>\<open>_DATE_RE\<close> at one position: \<open>seen\<close> is the text to the left, reversed. The result is
      group 1 and the length of the whole match.\<close>
  "match_date seen s =
     (if startswith seen (rev ''datetime'') then None
      else if startswith seen [squote] then None
      else (case s of
              [] \<Rightarrow> None
            | c # r \<Rightarrow>
                if c \<noteq> squote then None
                else (case match_date_body r of
                        None \<Rightarrow> None
                      | Some n \<Rightarrow> Some (take n r, n + 2))))"

definition repl :: "string \<Rightarrow> string" where
  \<comment> \<open>\<open>_repl\<close>, on group 1 of the match\<close>
  "repl raw =
     (let (date_part, time_part) =
            (if CHR ''T'' \<in> set raw \<or> CHR ''t'' \<in> set raw
             then (let parts = split_once (CHR ''T'') (map (\<lambda>c. if c = CHR ''t'' then CHR ''T'' else c) raw)
                   in (hd parts, parts ! 1))
             else (raw, ''00:00:00''));
          parts = split_on (CHR '':'') time_part;
          parts = parts @ replicate (3 - length parts) ''00'';
          normalized_time = join '':'' (take 3 parts);
          normalized = date_part @ ''T'' @ normalized_time
      in ''datetime'' @ [squote] @ normalized @ [squote])"

fun date_sub :: "string \<Rightarrow> nat \<Rightarrow> string \<Rightarrow> string" where
  \<comment> \<open>\<open>_DATE_RE.sub(_repl, text)\<close>, scanning from the left; \<open>skip\<close> counts the characters
      of a match still to pass\<close>
  "date_sub seen skip [] = []"
| "date_sub seen skip (c # r) =
     (if skip > 0 then date_sub (c # seen) (skip - 1) r
      else (case match_date seen (c # r) of
              Some (raw, n) \<Rightarrow> repl raw @ date_sub (c # seen) (n - 1) r
            | None \<Rightarrow> c # date_sub (c # seen) 0 r))"

definition normalize_filter_dates :: "string \<Rightarrow> string" where
  "normalize_filter_dates filter_expr =
     (if contains (lower filter_expr) (''datetime'' @ [squote]) then filter_expr
      else date_sub [] 0 filter_expr)"

definition bare_keywords :: "string list" where
  "bare_keywords = [''filter'', ''select'', ''top'', ''orderby'', ''format'', ''expand'']"

definition normalize_key :: "string \<Rightarrow> string" where
  \<comment> \<open>the key under which an entry with the stripped key \<open>key\<close> is stored\<close>
  "normalize_key key =
     (let bare = lower (lstrip_chars ''$'' key)
      in if \<not> startswith key ''$'' \<and> bare \<in> set bare_keywords then ''$'' @ bare else key)"

definition normalize_entry :: "params \<Rightarrow> string \<times> pyvalue \<Rightarrow> params" where
  \<comment> \<open>one turn of the loop of \<open>normalize_params\<close>\<close>
  "normalize_entry normalized kv =
     (case kv of (key, value) \<Rightarrow>
        if value = VNone \<or> value = VStr [] then normalized
        else
          (let key = strip key
           in if key = [] then normalized
              else
                (let key = normalize_key key;
                     value = (if key = ''$format'' \<and> \<not> py_bool value then VStr ''json'' else value);
                     value = (if key = ''$filter'' \<and> is_str value
                              then VStr (normalize_filter_dates (py_str value)) else value)
                 in dict_set normalized key value)))"

definition normalize_params :: "params option \<Rightarrow> params" where
  "normalize_params ps =
     (case ps of
        None \<Rightarrow> [(''$format'', VStr ''json'')]
      | Some d \<Rightarrow>
          (let normalized = foldl normalize_entry [] d
           in if ''$format'' \<notin> fst ` set normalized
              then dict_set normalized ''$format'' (VStr ''json'')
              else normalized))"

section \<open>Retrying calls\<close>

text \<open>
  The retry decorator comes from a library outside the repository. Its loop, as the
  decorated functions configure it: call the function; return its result; re-raise an
  exception the predicate rejects; after the last permitted attempt raise \<open>RetryError\<close>;
  otherwise sleep and call again. \<open>fn n\<close> is the outcome of the \<open>n\<close>-th call. The result
  carries the number of calls made and the sleeps between them, in milliseconds. (Where
  the library is not installed the modules fall back to a decorator that calls the
  function once; that variant is not modelled.)
\<close>

definition wait_exponential :: "nat \<Rightarrow> nat \<Rightarrow> nat \<Rightarrow> nat \<Rightarrow> nat" where
  \<comment> \<open>\<open>wait_exponential(multiplier, min, max)\<close> after the attempt of the given number\<close>
  "wait_exponential multiplier lo hi attempt = max lo (min (multiplier * 2 ^ (attempt - 1)) hi)"

record 'a retried =
  outcome :: "exn + 'a"
  attempts :: nat
  sleeps :: "nat list"

fun retrying ::
  "nat \<Rightarrow> (nat \<Rightarrow> nat) \<Rightarrow> (exn \<Rightarrow> bool) \<Rightarrow> (nat \<Rightarrow> exn + 'a) \<Rightarrow> nat \<Rightarrow> nat list \<Rightarrow> 'a retried" where
  "retrying 0 wait should_retry fn n slept =
     (case fn n of
        Inr r \<Rightarrow> \<lparr>outcome = Inr r, attempts = n, sleeps = slept\<rparr>
      | Inl e \<Rightarrow>
          if should_retry e then \<lparr>outcome = Inl RetryError, attempts = n, sleeps = slept\<rparr>
          else \<lparr>outcome = Inl e, attempts = n, sleeps = slept\<rparr>)"
| "retrying (Suc left) wait should_retry fn n slept =
     (case fn n of
        Inr r \<Rightarrow> \<lparr>outcome = Inr r, attempts = n, sleeps = slept\<rparr>
      | Inl e \<Rightarrow>
          if should_retry e then retrying left wait should_retry fn (Suc n) (slept @ [wait n])
          else \<lparr>outcome = Inl e, attempts = n, sleeps = slept\<rparr>)"

definition retry :: "nat \<Rightarrow> (nat \<Rightarrow> nat) \<Rightarrow> (exn \<Rightarrow> bool) \<Rightarrow> (nat \<Rightarrow> exn + 'a) \<Rightarrow> 'a retried" where
  \<comment> \<open>\<open>@retry(stop=stop_after_attempt(k), wait=..., retry=retry_if_exception_type(...))\<close>\<close>
  "retry stop_after_attempt wait should_retry fn =
     retrying (stop_after_attempt - 1) wait should_retry fn 1 []"

section \<open>Plan generator\<close>

datatype json =
    JNull
  | JBool bool
  | JInt int
  | JFloat pyfloat
  | JStr string
  | JList "json list"
  | JDict "(string \<times> json) list"

fun json_truthy :: "json \<Rightarrow> bool" where
  "json_truthy JNull = False"
| "json_truthy (JBool b) = b"
| "json_truthy (JInt i) = (i \<noteq> 0)"
| "json_truthy (JFloat f) = float_nonzero f"
| "json_truthy (JStr s) = (s \<noteq> [])"
| "json_truthy (JList xs) = (xs \<noteq> [])"
| "json_truthy (JDict kvs) = (kvs \<noteq> [])"

definition json_pattern_search :: "string \<Rightarrow> string option" where
  \<comment> \<open>\<open>_JSON_PATTERN.search(raw)\<close> for \<open>\{.*\}\<close> with \<open>DOTALL\<close>: from the first opening
      brace to the last closing brace after it\<close>
  "json_pattern_search raw =
     (case dropWhile (\<lambda>c. c \<noteq> CHR ''{'') raw of
        [] \<Rightarrow> None
      | c # r \<Rightarrow>
          if CHR ''}'' \<in> set r then Some (c # rev (dropWhile (\<lambda>c. c \<noteq> CHR ''}'') (rev r)))
          else None)"

text \<open>
  \<open>json.loads\<close> and the validation of the plan model are taken as parameters:
  \<open>json_loads s\<close> is \<open>None\<close> where \<open>json.loads(s)\<close> raises \<open>JSONDecodeError\<close>, and
  \<open>model_validate j\<close> is \<open>Inl msg\<close> where \<open>QueryPlan.model_validate(j)\<close> raises an exception
  whose text is \<open>msg\<close>.
\<close>

definition parse_structured_plan ::
  "(string \<Rightarrow> json option) \<Rightarrow> (json \<Rightarrow> string + QueryPlan) \<Rightarrow> string \<Rightarrow> exn + QueryPlan" where
  "parse_structured_plan json_loads model_validate txt =
     (if txt = [] \<or> strip txt = [] then Inl (PlanParseError ''LLM response is empty'')
      else
        (let raw = strip txt
         in case (case json_loads raw of
                    Some parsed \<Rightarrow> Inr parsed
                  | None \<Rightarrow>
                      (case json_pattern_search raw of
                         None \<Rightarrow> Inl (PlanParseError ''LLM response is not valid JSON'')
                       | Some m \<Rightarrow>
                           (case json_loads m of
                              Some parsed \<Rightarrow> Inr parsed
                            | None \<Rightarrow> Inl JSONDecodeError)))
            of Inl e \<Rightarrow> Inl e
             | Inr parsed \<Rightarrow>
                 (case model_validate parsed of
                    Inl msg \<Rightarrow> Inl (PlanParseError (''Invalid plan structure: '' @ msg))
                  | Inr plan \<Rightarrow> Inr plan)))"

fun json_first :: "json \<Rightarrow> exn + json" where
  \<comment> \<open>\<open>x[0]\<close>\<close>
  "json_first (JList (x # xs)) = Inr x"
| "json_first (JList []) = Inl (OtherException ''IndexError'')"
| "json_first (JStr (c # cs)) = Inr (JStr [c])"
| "json_first (JStr []) = Inl (OtherException ''IndexError'')"
| "json_first (JDict kvs) = Inl (OtherException ''KeyError'')"
| "json_first _ = Inl (OtherException ''TypeError'')"

fun message_content :: "json \<Rightarrow> exn + string option" where
  \<comment> \<open>the test on \<open>message\<close>: its text content, if it has one\<close>
  "message_content (JDict m) =
     (case map_of m ''content'' of Some (JStr s) \<Rightarrow> Inr (Some s) | _ \<Rightarrow> Inr None)"
| "message_content (JStr s) =
     (if contains s ''content'' then Inl (OtherException ''TypeError'') else Inr None)"
| "message_content (JList xs) =
     (if JStr ''content'' \<in> set xs then Inl (OtherException ''TypeError'') else Inr None)"
| "message_content _ = Inl (OtherException ''TypeError'')"

definition choice_text :: "json \<Rightarrow> exn + string option" where
  "choice_text choice =
     (case choice of
        JDict c \<Rightarrow>
          (let message = (case map_of c ''message'' of
                            Some m \<Rightarrow> if json_truthy m then m else JDict []
                          | None \<Rightarrow> JDict [])
           in case message_content message of
                Inl e \<Rightarrow> Inl e
              | Inr (Some s) \<Rightarrow> Inr (Some s)
              | Inr None \<Rightarrow>
                  (case map_of c ''text'' of Some (JStr s) \<Rightarrow> Inr (Some s) | _ \<Rightarrow> Inr None))
      | _ \<Rightarrow> Inl (OtherException ''AttributeError''))"

definition extract_llm_text :: "(string \<times> json) list \<Rightarrow> exn + string" where
  "extract_llm_text payload =
     (case (case map_of payload ''choices'' of
              None \<Rightarrow> Inr None
            | Some choices \<Rightarrow>
                if json_truthy choices
                then (case json_first choices of Inl e \<Rightarrow> Inl e | Inr choice \<Rightarrow> choice_text choice)
                else Inr None)
      of Inl e \<Rightarrow> Inl e
       | Inr (Some s) \<Rightarrow> Inr s
       | Inr None \<Rightarrow>
           (case map_of payload ''result'' of
              Some (JStr s) \<Rightarrow> Inr s
            | _ \<Rightarrow> Inl (LLMClientError ''Unexpected LLM response format, no text content found'')))"

fun exn_str :: "exn \<Rightarrow> string" where
  \<comment> \<open>\<open>str(exc)\<close>; the text of an exception raised by a library is not modelled\<close>
  "exn_str (ValueError m) = m"
| "exn_str (ODataClientError m) = m"
| "exn_str (LLMClientError m) = m"
| "exn_str (PlanParseError m) = m"
| "exn_str (OtherException m) = m"
| "exn_str _ = []"

record LLMClient =
  api_key :: string
  model_id :: string
  use_structured_output :: bool

record llm_response =
  llm_status_code :: nat
  llm_text :: string
  llm_json :: "(string \<times> json) list option"  \<comment> \<open>\<open>response.json()\<close>, \<open>None\<close> where it raises\<close>

text \<open>
  One call of the body of \<open>generate_plan\<close>. \<open>post structured\<close> is the outcome of
  \<open>client.post\<close> with or without the \<open>response_format\<close> entry in the payload. The elapsed
  time is left out of the result.
\<close>

definition generate_plan_body ::
  "LLMClient \<Rightarrow> (bool \<Rightarrow> exn + llm_response) \<Rightarrow> (string \<Rightarrow> json option)
     \<Rightarrow> (json \<Rightarrow> string + QueryPlan) \<Rightarrow> exn + (QueryPlan \<times> string)" where
  "generate_plan_body self post json_loads model_validate =
     (if api_key self = [] then Inl (LLMClientError ''API_KEY is not set'')
      else if model_id self = [] then Inl (LLMClientError ''CLOUD_MODEL_ID is not set'')
      else
        (case (case post (use_structured_output self) of
                 Inl exc \<Rightarrow> Inl exc
               | Inr response \<Rightarrow>
                   if llm_status_code response \<ge> 400 \<and> use_structured_output self
                   then post False else Inr response)
         of Inl exc \<Rightarrow> Inl (LLMClientError (''LLM request failed: '' @ exn_str exc))
          | Inr response \<Rightarrow>
              if llm_status_code response \<ge> 400
              then Inl (LLMClientError (''LLM HTTP '' @ str_nat (llm_status_code response) @ '': ''
                                        @ llm_text response))
              else
                (case llm_json response of
                   None \<Rightarrow> Inl (LLMClientError ''Cannot decode LLM response JSON: '')
                 | Some payload_json \<Rightarrow>
                     (case extract_llm_text payload_json of
                        Inl e \<Rightarrow> Inl e
                      | Inr txt \<Rightarrow>
                          (case parse_structured_plan json_loads model_validate txt of
                             Inl (PlanParseError m) \<Rightarrow> Inl (PlanParseError (m @ ''. Raw: '' @ txt))
                           | Inl e \<Rightarrow> Inl e
                           | Inr plan \<Rightarrow> Inr (plan, txt))))))"

definition is_httpx_transport :: "exn \<Rightarrow> bool" where
  \<comment> \<open>\<open>retry_if_exception_type((httpx.TimeoutException, httpx.NetworkError))\<close>\<close>
  "is_httpx_transport e = (e = HttpxTimeoutException \<or> e = HttpxNetworkError)"

definition generate_plan ::
  "LLMClient \<Rightarrow> (nat \<Rightarrow> bool \<Rightarrow> exn + llm_response) \<Rightarrow> (string \<Rightarrow> json option)
     \<Rightarrow> (json \<Rightarrow> string + QueryPlan) \<Rightarrow> (QueryPlan \<times> string) retried" where
  \<comment> \<open>the decorated method; \<open>backend n\<close> answers the posts of the \<open>n\<close>-th call\<close>
  "generate_plan self backend json_loads model_validate =
     retry 3 (wait_exponential 1000 1000 10000) is_httpx_transport
       (\<lambda>n. generate_plan_body self (backend n) json_loads model_validate)"

section \<open>Protocol client\<close>

record ODataClient =
  base_url :: string
  username :: string
  password :: string

record odata_response =
  status :: nat
  payload :: "json option"  \<comment> \<open>\<open>response.json()\<close>, \<open>None\<close> where it raises\<close>

record envelope =
  env_url :: string
  env_payload :: json
  env_status_code :: nat
  env_params :: params

fun direction_str :: "direction \<Rightarrow> string" where
  "direction_str Asc = ''asc''"
| "direction_str Desc = ''desc''"

definition plan_params :: "QueryPlan \<Rightarrow> exn + params" where
  \<comment> \<open>the parameters that \<open>fetch\<close> derives from the plan\<close>
  "plan_params plan =
     (case (case filter_group plan of
              None \<Rightarrow> Inr []
            | Some g \<Rightarrow>
                (case ODataFilterBuilder_build (Some g) of
                   Inl e \<Rightarrow> Inl e
                 | Inr filter_str \<Rightarrow>
                     Inr (if filter_str \<noteq> [] then [(''$filter'', VStr filter_str)] else [])))
      of Inl e \<Rightarrow> Inl e
       | Inr ps \<Rightarrow>
           (let ps = (if select plan \<noteq> [] then dict_set ps ''$select'' (VStr (join '','' (select plan)))
                      else ps);
                ps = (case top plan of
                        Some t \<Rightarrow> if t \<noteq> 0 then dict_set ps ''$top'' (VInt t) else ps
                      | None \<Rightarrow> ps);
                ps = (if orderby plan \<noteq> []
                      then dict_set ps ''$orderby''
                             (VStr (join '','' (map (\<lambda>(f, d). f @ '' '' @ direction_str d) (orderby plan))))
                      else ps);
                ps = (if expand plan \<noteq> [] then dict_set ps ''$expand'' (VStr (join '','' (expand plan)))
                      else ps)
            in Inr ps))"

definition is_aiohttp_ClientError :: "exn \<Rightarrow> bool" where
  \<comment> \<open>the exceptions that \<open>except aiohttp.ClientError\<close> catches\<close>
  "is_aiohttp_ClientError e = (e = AiohttpClientError \<or> e = AiohttpServerTimeoutError)"

definition is_aiohttp_transport :: "exn \<Rightarrow> bool" where
  \<comment> \<open>\<open>retry_if_exception_type((aiohttp.ClientError, asyncio.TimeoutError))\<close>\<close>
  "is_aiohttp_transport e =
     (e = AiohttpClientError \<or> e = AiohttpServerTimeoutError \<or> e = AsyncioTimeoutError)"

definition fetch_body ::
  "ODataClient \<Rightarrow> QueryPlan \<Rightarrow> params option \<Rightarrow> (string \<Rightarrow> exn + odata_response) \<Rightarrow> exn + envelope" where
  \<comment> \<open>one call of the body of \<open>fetch\<close>; \<open>get url\<close> is the outcome of \<open>session.get\<close>\<close>
  "fetch_body self plan extra_params get =
     (case plan_params plan of
        Inl e \<Rightarrow> Inl e
      | Inr ps \<Rightarrow>
          (let ps = foldl (\<lambda>d (k, v). dict_set d k v) ps
                      (case extra_params of None \<Rightarrow> [] | Some d \<Rightarrow> d)
           in case ODataUrlBuilder_build (base_url self) (entity plan) (Some ps) of
                Inl exc \<Rightarrow> Inl (ODataClientError (exn_str exc))
              | Inr full_url \<Rightarrow>
                  (case get full_url of
                     Inl exc \<Rightarrow>
                       if is_aiohttp_ClientError exc
                       then Inl (ODataClientError (''OData request failed: '' @ exn_str exc))
                       else Inl exc
                   | Inr response \<Rightarrow>
                       if status response \<ge> 400
                       then Inl (ODataClientError (''OData HTTP '' @ str_nat (status response)))
                       else
                         (case payload response of
                            None \<Rightarrow> Inl (ODataClientError ''Failed to parse OData JSON: '')
                          | Some p \<Rightarrow>
                              Inr \<lparr>env_url = full_url, env_payload = p,
                                   env_status_code = status response, env_params = ps\<rparr>))))"

definition fetch ::
  "ODataClient \<Rightarrow> QueryPlan \<Rightarrow> params option \<Rightarrow> (nat \<Rightarrow> string \<Rightarrow> exn + odata_response)
     \<Rightarrow> envelope retried" where
  \<comment> \<open>the decorated method; \<open>server n\<close> answers the request of the \<open>n\<close>-th call\<close>
  "fetch self plan extra_params server =
     retry 3 (wait_exponential 500 500 5000) is_aiohttp_transport
       (\<lambda>n. fetch_body self plan extra_params (server n))"

section \<open>Notions of the specification\<close>


fun all_empty :: "FilterGroup \<Rightarrow> bool"
  and all_empty_members :: "member list \<Rightarrow> bool" where
  "all_empty (FilterGroup lg conds) = all_empty_members conds"
| "all_empty_members [] = True"
| "all_empty_members (Cond c # ms) = False"
| "all_empty_members (Nested g # ms) = (all_empty g \<and> all_empty_members ms)"

text \<open>A value that the normalisation passes drop: \<open>None\<close> or the empty text.\<close>

definition dropped :: "pyvalue \<Rightarrow> bool" where
  "dropped v = (v = VNone \<or> v = VStr [])"

text \<open>
  The value that \<open>normalize_params\<close> stores under a normalised key for the raw value
  \<open>v\<close>: a false \<open>$format\<close> becomes \<open>json\<close>, the text of a \<open>$filter\<close> has its
  dates rewritten, every other value is kept.
\<close>

definition stored_value :: "string \<Rightarrow> pyvalue \<Rightarrow> pyvalue" where
  "stored_value key v =
     (let v1 = (if key = ''$format'' \<and> \<not> py_bool v then VStr ''json'' else v)
      in if key = ''$filter'' \<and> is_str v1 then VStr (normalize_filter_dates (py_str v1)) else v1)"

text \<open>
  An entry of the raw parameters is stored under the key \<open>key\<close>: its value is not dropped,
  its stripped key is not empty and normalises to \<open>key\<close>.
\<close>

definition stored_under :: "string \<Rightarrow> string \<times> pyvalue \<Rightarrow> bool" where
  "stored_under key kv =
     (\<not> dropped (snd kv) \<and> strip (fst kv) \<noteq> [] \<and> normalize_key (strip (fst kv)) = key)"

text \<open>
  The textual forms of the specification, for a date and a time given by their numbers:
  \<open>YYYY-MM-DD\<close>, \<open>DD.MM.YYYY\<close>, \<open>HH:MM\<close>, \<open>HH:MM:SS\<close>, and the normalised
  form \<open>YYYY-MM-DDTHH:MM:SS\<close>; the dates of the calendar and the times of the day; the
  native values; the literal \<open>datetime'...'\<close>.
\<close>

definition ymd_text :: "nat \<Rightarrow> nat \<Rightarrow> nat \<Rightarrow> string" where
  "ymd_text y m d = zpad 4 y @ ''-'' @ zpad 2 m @ ''-'' @ zpad 2 d"

definition dmy_text :: "nat \<Rightarrow> nat \<Rightarrow> nat \<Rightarrow> string" where
  "dmy_text y m d = zpad 2 d @ ''.'' @ zpad 2 m @ ''.'' @ zpad 4 y"

definition hm_text :: "nat \<Rightarrow> nat \<Rightarrow> string" where
  "hm_text h mi = zpad 2 h @ '':'' @ zpad 2 mi"

definition hms_text :: "nat \<Rightarrow> nat \<Rightarrow> nat \<Rightarrow> string" where
  "hms_text h mi s = zpad 2 h @ '':'' @ zpad 2 mi @ '':'' @ zpad 2 s"

definition valid_date :: "nat \<Rightarrow> nat \<Rightarrow> nat \<Rightarrow> bool" where
  "valid_date y m d =
     (1 \<le> y \<and> y \<le> 9999 \<and> 1 \<le> m \<and> m \<le> 12 \<and> 1 \<le> d \<and> d \<le> days_in_month y m)"

definition valid_time :: "nat \<Rightarrow> nat \<Rightarrow> nat \<Rightarrow> bool" where
  "valid_time h mi s = (h \<le> 23 \<and> mi \<le> 59 \<and> s \<le> 59)"

definition normalized_text :: "nat \<Rightarrow> nat \<Rightarrow> nat \<Rightarrow> nat \<Rightarrow> nat \<Rightarrow> nat \<Rightarrow> string" where
  "normalized_text y m d h mi s = ymd_text y m d @ ''T'' @ hms_text h mi s"

definition is_native :: "pyvalue \<Rightarrow> bool" where
  "is_native v = (case v of VDateTime _ \<Rightarrow> True | VDate _ \<Rightarrow> True | _ \<Rightarrow> False)"

definition datetime_literal :: "string \<Rightarrow> string" where
  "datetime_literal x = ''datetime'' @ [squote] @ x @ [squote]"

text \<open>
  For the proofs about the patterns: the fields of a successful parse, the occurrences of
  a character in a text, ignoring case, and of a literal in a compiled format.
\<close>

definition parsed_fields ::
  "pydatetime option \<Rightarrow> nat \<Rightarrow> nat \<Rightarrow> nat \<Rightarrow> nat \<Rightarrow> nat \<Rightarrow> nat \<Rightarrow> bool" where
  "parsed_fields res y m d h mi s =
     (\<exists>t. res = Some t \<and> year t = y \<and> month t = m \<and> day t = d \<and> hour t = h
          \<and> minute t = mi \<and> second t = s \<and> microsecond t = 0 \<and> utcoffset t = None)"

definition count_ci :: "char \<Rightarrow> string \<Rightarrow> nat" where
  "count_ci c s = length (filter (\<lambda>a. lower_char a = lower_char c) s)"

definition lits :: "char \<Rightarrow> directive list \<Rightarrow> nat" where
  "lits c ds = length (filter (\<lambda>d. d = Lit c) ds)"

section \<open>The validator without metadata for the entity\<close>

lemma check_fields_no_valid_fields:
  "check_fields g {} = []" "check_members ms {} = []"
  by (induction g "{} :: string set" and ms "{} :: string set"
      rule: check_fields_check_members.induct) simp_all

text \<open>
  Claim C7. For a plan whose entity has no known field set in the index (the entity is
  absent, or its record lists no field), \<open>validate\<close> reports no field error for the
  filter, for \<open>select\<close> or for \<open>orderby\<close>: the list of errors is empty, or holds the
  unknown-entity message alone.
\<close>

theorem validate_without_field_set:
  assumes "get_fields v (entity plan) = {}"
  shows "validate v plan =
           (if entity plan \<in> entities v then [] else [''Unknown entity: '' @ entity plan])"
  using assms
  by (simp add: validate_def check_fields_no_valid_fields split: option.split prod.split)

theorem validate_without_field_set_witness:
  "get_fields (PlanValidator_init
       [\<lparr>item_type = Some ''Catalog'', item_name = Some ''X'', item_fields = Some [''Name'']\<rparr>])
     (entity \<lparr>entity = ''Catalog_Y'',
        filter_group = Some (FilterGroup And
          [Cond \<lparr>field = ''Nam'', operator = EQ, val = VInt 1, val_type = TNumber\<rparr>]),
        select = [''Foo''], orderby = [(''Bar'', Asc)], top = None, expand = []\<rparr>) = {}
   \<and> validate (PlanValidator_init
       [\<lparr>item_type = Some ''Catalog'', item_name = Some ''X'', item_fields = Some [''Name'']\<rparr>])
      \<lparr>entity = ''Catalog_Y'',
        filter_group = Some (FilterGroup And
          [Cond \<lparr>field = ''Nam'', operator = EQ, val = VInt 1, val_type = TNumber\<rparr>]),
        select = [''Foo''], orderby = [(''Bar'', Asc)], top = None, expand = []\<rparr>
     = [''Unknown entity: Catalog_Y'']"
proof -
  let ?v = "PlanValidator_init
       [\<lparr>item_type = Some ''Catalog'', item_name = Some ''X'', item_fields = Some [''Name'']\<rparr>]"
  let ?p = "\<lparr>entity = ''Catalog_Y'',
        filter_group = Some (FilterGroup And
          [Cond \<lparr>field = ''Nam'', operator = EQ, val = VInt 1, val_type = TNumber\<rparr>]),
        select = [''Foo''], orderby = [(''Bar'', Asc)], top = None, expand = []\<rparr>"
  have h: "get_fields ?v (entity ?p) = {}"
    by (simp add: get_fields_def PlanValidator_init_def build_fields_index_def item_entity_def
        fmt_opt_def)
  have e: "entity ?p \<notin> entities ?v"
    by (simp add: PlanValidator_init_def item_entity_def fmt_opt_def)
  show ?thesis using h e validate_without_field_set [OF h] by simp
qed

section \<open>Rendering of filter groups\<close>

lemma startswith_paren [simp]: "startswith (CHR ''('' # s) ''(''"
  by (simp add: startswith_def)

lemma endswith_paren [simp]: "endswith (s @ '')'') '')''"
  by (simp add: endswith_def)

lemma wrap_part_paren: "wrap_part (''('' @ e @ '')'') = ''('' @ e @ '')''"
  using endswith_paren [of "CHR ''('' # e"] by (simp add: wrap_part_def)

lemma render_condition_nonempty: "render_condition c = Inr e \<Longrightarrow> e \<noteq> []"
  by (auto simp: render_condition_def split: sum.splits)


lemma scenario_C:
  "build_group (FilterGroup Or
       [Cond \<lparr>field = ''Status'', operator = EQ, val = VInt 1, val_type = TNumber\<rparr>,
        Nested (FilterGroup And
          [Cond \<lparr>field = ''Price'', operator = GT, val = VInt 100, val_type = TNumber\<rparr>,
           Cond \<lparr>field = ''Active'', operator = EQ, val = VBool True, val_type = TBoolean\<rparr>])])
     = Inr ''(Status eq 1) or ((Price gt 100) and (Active eq true))''"
  by code_simp





lemma build_parts_omits_empty:
  "build_group e = Inr [] \<Longrightarrow> build_parts (xs @ Nested e # ys) = build_parts (xs @ ys)"
proof (induction xs)
  case Nil
  then show ?case by (simp split: sum.splits)
next
  case (Cons m xs)
  then show ?case by (cases m) (simp_all split: sum.splits)
qed

lemma all_empty_renders_empty:
  "all_empty g \<Longrightarrow> build_group g = Inr []"
  "all_empty_members ms \<Longrightarrow> build_parts ms = Inr []"
  by (induction g and ms rule: all_empty_all_empty_members.induct) simp_all

lemma build_parts_operands:
  "build_parts ms = Inr ps \<Longrightarrow> p \<in> set ps \<Longrightarrow> p \<noteq> [] \<and> p \<noteq> ''()'' \<and> wrap_part p \<noteq> ''()''"
proof (induction ms arbitrary: ps)
  case Nil
  then show ?case by simp
next
  case (Cons m ms)
  show ?case
  proof (cases m)
    case (Cond c)
    with Cons.prems obtain q qs where q: "render_condition c = Inr q" "build_parts ms = Inr qs"
      "ps = q # qs"
      by (auto split: sum.splits)
    from q(1) have sp: "CHR '' '' \<in> set q"
      by (auto simp: render_condition_def split: sum.splits)
    then have "CHR '' '' \<in> set (wrap_part q)" by (simp add: wrap_part_def)
    with sp have "q \<noteq> []" "q \<noteq> ''()''" "wrap_part q \<noteq> ''()''" by auto
    with Cons.IH [OF q(2)] Cons.prems(2) q(3) show ?thesis by auto
  next
    case (Nested g)
    with Cons.prems obtain n qs where n: "build_group g = Inr n" "build_parts ms = Inr qs"
      "ps = (if n \<noteq> [] then (''('' @ n @ '')'') # qs else qs)"
      by (auto split: sum.splits)
    have "n \<noteq> [] \<Longrightarrow> wrap_part (''('' @ n @ '')'') \<noteq> ''()''"
      using wrap_part_paren [of n] by simp
    with Cons.IH [OF n(2)] Cons.prems(2) n(3) show ?thesis by (auto split: if_splits)
  qed
qed

text \<open>
  Claim C10, as amended. A nested group that renders to the empty text is left out of its
  parent's output. Hence a group all of whose members are empty groups, at any depth,
  renders to the empty text. In every rendered group the operands that the logic keyword
  joins are non-empty, and none of them is an empty pair of parentheses: the output is
  empty, one operand alone, or the join of at least two such operands. Nothing is said
  of the text inside an operand: a condition is rendered from its field and value as they
  are given.
\<close>

theorem empty_groups_omitted:
  "(build_group e = Inr []
      \<longrightarrow> build_group (FilterGroup lg (xs @ Nested e # ys)) = build_group (FilterGroup lg (xs @ ys)))
   \<and> (all_empty g \<longrightarrow> build_group g = Inr [] \<and> ODataFilterBuilder_build (Some g) = Inr [])
   \<and> (build_group (FilterGroup lg ms) = Inr s
       \<longrightarrow> (\<exists>ps. build_parts ms = Inr ps
              \<and> (\<forall>p \<in> set ps. p \<noteq> [] \<and> p \<noteq> ''()'' \<and> wrap_part p \<noteq> ''()'')
              \<and> s = (case ps of [] \<Rightarrow> [] | [p] \<Rightarrow> p
                      | _ \<Rightarrow> join ('' '' @ logic_str lg @ '' '') (map wrap_part ps))))"
proof (intro conjI impI)
  assume "build_group e = Inr []"
  then show "build_group (FilterGroup lg (xs @ Nested e # ys)) = build_group (FilterGroup lg (xs @ ys))"
    by (simp add: build_parts_omits_empty)
next
  assume "all_empty g"
  then show "build_group g = Inr []" by (rule all_empty_renders_empty)
next
  assume "all_empty g"
  then show "ODataFilterBuilder_build (Some g) = Inr []"
    by (simp add: ODataFilterBuilder_build_def all_empty_renders_empty)
next
  assume h: "build_group (FilterGroup lg ms) = Inr s"
  then obtain ps where ps: "build_parts ms = Inr ps" by (auto split: sum.splits)
  with h have "s = (case ps of [] \<Rightarrow> [] | [p] \<Rightarrow> p
                      | _ \<Rightarrow> join ('' '' @ logic_str lg @ '' '') (map wrap_part ps))"
    by (auto split: list.splits)
  with ps build_parts_operands [OF ps] show "\<exists>ps. build_parts ms = Inr ps
              \<and> (\<forall>p \<in> set ps. p \<noteq> [] \<and> p \<noteq> ''()'' \<and> wrap_part p \<noteq> ''()'')
              \<and> s = (case ps of [] \<Rightarrow> [] | [p] \<Rightarrow> p
                      | _ \<Rightarrow> join ('' '' @ logic_str lg @ '' '') (map wrap_part ps))"
    by blast
qed

text \<open>
  The claim as stated says that no rendered filter contains empty parentheses or a logic
  keyword with a missing operand. It fails on a condition whose value carries such a text:
  a value of type \<open>number\<close> is rendered by \<open>str\<close>, so the value \<open>()\<close> gives the
  filter \<open>f eq ()\<close>, and the value \<open>1 and\<close> gives an operand that ends with a keyword.
\<close>

theorem empty_groups_omitted_counterexample:
  "ODataFilterBuilder_build (Some (FilterGroup And
       [Cond \<lparr>field = ''f'', operator = EQ, val = VStr ''()'', val_type = TNumber\<rparr>]))
     = Inr ''f eq ()''
   \<and> contains ''f eq ()'' ''()''
   \<and> ODataFilterBuilder_build (Some (FilterGroup Or
       [Cond \<lparr>field = ''a'', operator = EQ, val = VStr ''1 and'', val_type = TNumber\<rparr>,
        Cond \<lparr>field = ''b'', operator = EQ, val = VInt 2, val_type = TNumber\<rparr>]))
     = Inr ''(a eq 1 and) or (b eq 2)''"
  by code_simp

theorem empty_groups_omitted_witness:
  "build_group (FilterGroup Or []) = Inr []
   \<and> build_group (FilterGroup And
         ([Cond \<lparr>field = ''a'', operator = EQ, val = VInt 1, val_type = TNumber\<rparr>]
          @ Nested (FilterGroup Or [])
          # [Cond \<lparr>field = ''b'', operator = NE, val = VInt 2, val_type = TNumber\<rparr>]))
     = build_group (FilterGroup And
         ([Cond \<lparr>field = ''a'', operator = EQ, val = VInt 1, val_type = TNumber\<rparr>]
          @ [Cond \<lparr>field = ''b'', operator = NE, val = VInt 2, val_type = TNumber\<rparr>]))
   \<and> all_empty (FilterGroup And [Nested (FilterGroup Or [Nested (FilterGroup And [])]),
                                 Nested (FilterGroup Or [])])
   \<and> ODataFilterBuilder_build
        (Some (FilterGroup And [Nested (FilterGroup Or [Nested (FilterGroup And [])]),
                                Nested (FilterGroup Or [])])) = Inr []
   \<and> build_group (FilterGroup And
         [Cond \<lparr>field = ''a'', operator = EQ, val = VInt 1, val_type = TNumber\<rparr>,
          Nested (FilterGroup Or [])]) = Inr ''a eq 1''
   \<and> (\<exists>ps. build_parts
               [Cond \<lparr>field = ''a'', operator = EQ, val = VInt 1, val_type = TNumber\<rparr>,
                Nested (FilterGroup Or [])] = Inr ps
           \<and> (\<forall>p \<in> set ps. p \<noteq> [] \<and> p \<noteq> ''()'' \<and> wrap_part p \<noteq> ''()''))"
proof -
  let ?a = "Cond \<lparr>field = ''a'', operator = EQ, val = VInt 1, val_type = TNumber\<rparr>"
  let ?b = "Cond \<lparr>field = ''b'', operator = NE, val = VInt 2, val_type = TNumber\<rparr>"
  let ?g = "FilterGroup And [Nested (FilterGroup Or [Nested (FilterGroup And [])]),
                             Nested (FilterGroup Or [])]"
  have e: "build_group (FilterGroup Or []) = Inr []" by simp
  have g: "all_empty ?g" by simp
  have s: "build_group (FilterGroup And [?a, Nested (FilterGroup Or [])]) = Inr ''a eq 1''"
    by code_simp
  from empty_groups_omitted [of "FilterGroup Or []" And "[?a]" "[?b]" ?g
      "[?a, Nested (FilterGroup Or [])]" "''a eq 1''"] e g s
  show ?thesis by blast
qed

section \<open>The format parameter of a built URL\<close>

lemma dict_set_absent: "k \<notin> fst ` set ps \<Longrightarrow> dict_set ps k v = ps @ [(k, v)]"
  by (induction ps) auto

lemma join_snoc: "join sep (xs @ [y]) = (if xs = [] then y else join sep xs @ sep @ y)"
  by (induction sep xs rule: join.induct) auto

lemma query_part_format_json: "query_part (''$format'', VStr ''json'') = [''$format=json'']"
  by code_simp

text \<open>
  Claim C6. For a non-empty base URL and entity and a parameter map without a
  \<open>$format\<close> key (also an empty or an absent map), the URL that \<open>build\<close> returns
  ends with the query parameter \<open>$format=json\<close>, after the parameters of the map.
\<close>

theorem build_url_format_json:
  assumes "base \<noteq> []" and "ent \<noteq> []"
    and "''$format'' \<notin> fst ` set (case ps of None \<Rightarrow> [] | Some d \<Rightarrow> d)"
  shows "ODataUrlBuilder_build base ent ps
           = Inr (url_root base ent @ ''?''
                  @ join ''&'' (concat (map query_part (case ps of None \<Rightarrow> [] | Some d \<Rightarrow> d))
                                @ [''$format=json'']))
         \<and> (\<exists>url c. ODataUrlBuilder_build base ent ps = Inr (url @ c # ''$format=json'')
                    \<and> (c = CHR ''?'' \<or> c = CHR ''&''))"
proof -
  let ?d = "case ps of None \<Rightarrow> [] | Some d \<Rightarrow> d"
  let ?qs = "concat (map query_part ?d)"
  have eq: "ODataUrlBuilder_build base ent ps
           = Inr (url_root base ent @ ''?'' @ join ''&'' (?qs @ [''$format=json'']))"
    using assms
    by (simp add: ODataUrlBuilder_build_def dict_set_absent query_part_format_json Let_def)
  have "\<exists>url c. url_root base ent @ ''?'' @ join ''&'' (?qs @ [''$format=json''])
                  = url @ c # ''$format=json'' \<and> (c = CHR ''?'' \<or> c = CHR ''&'')"
  proof (cases "?qs = []")
    case True
    then show ?thesis by (simp add: join_snoc)
  next
    case False
    then have "url_root base ent @ ''?'' @ join ''&'' (?qs @ [''$format=json''])
               = (url_root base ent @ ''?'' @ join ''&'' ?qs) @ CHR ''&'' # ''$format=json''"
      by (simp add: join_snoc)
    then show ?thesis by blast
  qed
  with eq show ?thesis by metis
qed

theorem build_url_format_json_witness:
  "''https://example/odata'' \<noteq> [] \<and> ''Document_Sale'' \<noteq> []
   \<and> ''$format'' \<notin> fst ` set [(''$top'', VInt 1)]
   \<and> ODataUrlBuilder_build ''https://example/odata'' ''Document_Sale'' (Some [(''$top'', VInt 1)])
       = Inr ''https://example/odata/standard.odata/Document_Sale?$top=1&$format=json''"
proof -
  have r: "url_root ''https://example/odata'' ''Document_Sale''
             = ''https://example/odata/standard.odata/Document_Sale''"
    by code_simp
  have q: "query_part (''$top'', VInt 1) = [''$top=1'']" by code_simp
  have a: "''$format'' \<notin> fst ` set (case Some [(''$top'', VInt 1)] of None \<Rightarrow> [] | Some d \<Rightarrow> d)"
    by simp
  from build_url_format_json [of "''https://example/odata''" "''Document_Sale''"
      "Some [(''$top'', VInt 1)]", OF _ _ a] r q
  show ?thesis by simp
qed

section \<open>Idempotence of the entity name normalisation\<close>

lemma rstrip_noop: "s \<noteq> [] \<Longrightarrow> \<not> is_space (last s) \<Longrightarrow> rstrip s = s"
  by (cases s rule: rev_cases) (simp_all add: rstrip_def)

lemma lstrip_noop: "s \<noteq> [] \<Longrightarrow> \<not> is_space (hd s) \<Longrightarrow> lstrip s = s"
  by (cases s) (simp_all add: lstrip_def)

lemma strip_noop: "s \<noteq> [] \<Longrightarrow> \<not> is_space (hd s) \<Longrightarrow> \<not> is_space (last s) \<Longrightarrow> strip s = s"
  by (simp add: strip_def lstrip_noop rstrip_noop)

lemma dropWhile_hd: "dropWhile P xs \<noteq> [] \<Longrightarrow> \<not> P (hd (dropWhile P xs))"
  by (rule hd_dropWhile)

lemma dropWhile_last: "dropWhile P xs \<noteq> [] \<Longrightarrow> last (dropWhile P xs) = last xs"
  by (induction xs) (auto split: if_splits)

lemma lower_append: "lower (a @ b) = lower a @ lower b"
  by (simp add: lower_def)

lemma rstrip_last: "rstrip s \<noteq> [] \<Longrightarrow> \<not> is_space (last (rstrip s))"
proof -
  assume a: "rstrip s \<noteq> []"
  then have n: "dropWhile is_space (rev s) \<noteq> []" by (simp add: rstrip_def)
  have "last (rstrip s) = hd (dropWhile is_space (rev s))"
    using n by (simp add: rstrip_def last_rev)
  with dropWhile_hd [OF n] show ?thesis by simp
qed

lemma rstrip_hd: "rstrip s \<noteq> [] \<Longrightarrow> hd (rstrip s) = hd s"
proof -
  assume a: "rstrip s \<noteq> []"
  then have n: "dropWhile is_space (rev s) \<noteq> []" by (simp add: rstrip_def)
  then have s: "s \<noteq> []" by auto
  have "hd (rstrip s) = last (dropWhile is_space (rev s))"
    using n by (simp add: rstrip_def hd_rev)
  also have "\<dots> = last (rev s)" using n by (rule dropWhile_last)
  also have "\<dots> = hd s" using s by (simp add: last_rev)
  finally show ?thesis .
qed

lemma strip_ends:
  assumes "strip s \<noteq> []"
  shows "\<not> is_space (hd (strip s))" and "\<not> is_space (last (strip s))"
proof -
  from assms have l: "lstrip s \<noteq> []" by (auto simp: strip_def rstrip_def)
  then have "\<not> is_space (hd (lstrip s))" unfolding lstrip_def by (rule dropWhile_hd)
  with assms show "\<not> is_space (hd (strip s))" by (simp add: strip_def rstrip_hd)
  from assms show "\<not> is_space (last (strip s))" unfolding strip_def by (rule rstrip_last)
qed

lemma strip_idem: "strip (strip s) = strip s"
proof (cases "strip s = []")
  case True
  have "strip [] = []" by (simp add: strip_def lstrip_def rstrip_def)
  with True show ?thesis by simp
next
  case False
  then show ?thesis by (simp add: strip_noop strip_ends)
qed

lemma lower_Catalog: "lower ''Catalog'' = ''catalog''"
  by code_simp

lemma lower_Document: "lower ''Document'' = ''document''"
  by code_simp

lemma lower_InformationRegister: "lower ''InformationRegister'' = ''informationregister''"
  by code_simp

lemma lower_AccumulationRegister: "lower ''AccumulationRegister'' = ''accumulationregister''"
  by code_simp

lemma lower_ChartOfAccounts: "lower ''ChartOfAccounts'' = ''chartofaccounts''"
  by code_simp

lemma lstrip_chars_idem: "lstrip_chars cs (lstrip_chars cs s) = lstrip_chars cs s"
  by (simp add: lstrip_chars_def)

lemma lstrip_underscore_cons: "lstrip_chars ''_'' (CHR ''_'' # s) = lstrip_chars ''_'' s"
  by (simp add: lstrip_chars_def)



lemma startswith_lower_prefix:
  assumes "p \<in> set prefixes" and "q \<in> set prefixes"
  shows "startswith (lower p @ t) (lower q) \<longleftrightarrow> q = p"
  using assms unfolding prefixes_def
  by (auto simp: startswith_def lower_Catalog lower_Document lower_InformationRegister
      lower_AccumulationRegister lower_ChartOfAccounts)

lemma match_prefix_first:
  assumes "p \<in> set ps"
    and "\<forall>q \<in> set ps. startswith (lower ent) (lower q) \<longleftrightarrow> q = p"
  shows "match_prefix ps ent = p @ ''_'' @ lstrip_chars ''_'' (drop (length p) ent)"
  using assms by (induction ps) auto

lemma match_prefix_result:
  "(match_prefix ps ent = ent \<and> (\<forall>q \<in> set ps. \<not> startswith (lower ent) (lower q)))
   \<or> (\<exists>p \<in> set ps. match_prefix ps ent = p @ ''_'' @ lstrip_chars ''_'' (drop (length p) ent))"
  by (induction ps) auto

lemma match_prefix_no_match:
  "\<forall>q \<in> set ps. \<not> startswith (lower ent) (lower q) \<Longrightarrow> match_prefix ps ent = ent"
  by (induction ps) auto

lemma match_prefix_fixed:
  assumes "p \<in> set prefixes"
  shows "match_prefix prefixes (p @ ''_'' @ lstrip_chars ''_'' x)
           = p @ ''_'' @ lstrip_chars ''_'' x"
proof -
  let ?r = "p @ ''_'' @ lstrip_chars ''_'' x"
  have "\<forall>q \<in> set prefixes. startswith (lower ?r) (lower q) \<longleftrightarrow> q = p"
    using assms by (auto simp: lower_append startswith_lower_prefix)
  from match_prefix_first [OF assms this]
  show ?thesis by (simp add: lstrip_underscore_cons lstrip_chars_idem)
qed

lemma prefix_hd_not_space: "p \<in> set prefixes \<Longrightarrow> p \<noteq> [] \<and> \<not> is_space (hd p)"
  unfolding prefixes_def by (auto simp: is_space_def)

lemma normalized_name_stripped:
  assumes "p \<in> set prefixes" and "e \<noteq> [] \<longrightarrow> \<not> is_space (last e)"
  shows "strip (p @ ''_'' @ lstrip_chars ''_'' (drop (length p) e))
           = p @ ''_'' @ lstrip_chars ''_'' (drop (length p) e)"
proof -
  let ?rest = "lstrip_chars ''_'' (drop (length p) e)"
  let ?r = "p @ ''_'' @ ?rest"
  from prefix_hd_not_space [OF assms(1)] have h: "\<not> is_space (hd ?r)" by (cases p) auto
  have l: "\<not> is_space (last ?r)"
  proof (cases "?rest = []")
    case True
    then show ?thesis by (simp add: is_space_def)
  next
    case False
    then have d: "drop (length p) e \<noteq> []" by (auto simp: lstrip_chars_def)
    then have e: "e \<noteq> []" by auto
    from False have "last ?rest = last (drop (length p) e)"
      unfolding lstrip_chars_def by (rule dropWhile_last)
    also from d have "\<dots> = last e" by (simp add: last_drop)
    finally show ?thesis using False e assms(2) by simp
  qed
  show ?thesis using h l by (intro strip_noop) simp_all
qed

text \<open>
  Claim C9. Normalising an entity name twice gives the same name as normalising it once,
  for every text; in particular for \<open>Catalog_Foo\<close>.
\<close>

theorem normalize_entity_name_idempotent:
  "normalize_entity_name (normalize_entity_name s) = normalize_entity_name s
   \<and> normalize_entity_name (normalize_entity_name ''Catalog_Foo'') = ''Catalog_Foo''"
proof
  show "normalize_entity_name (normalize_entity_name s) = normalize_entity_name s"
  proof (cases "s = []")
    case True
    then show ?thesis by (simp add: normalize_entity_name_def)
  next
    case False
    let ?e = "strip s"
    have r: "normalize_entity_name s = match_prefix prefixes ?e"
      using False by (simp add: normalize_entity_name_def)
    have last_e: "?e \<noteq> [] \<longrightarrow> \<not> is_space (last ?e)" by (simp add: strip_ends)
    from match_prefix_result [of prefixes ?e] show ?thesis
    proof
      assume a: "match_prefix prefixes ?e = ?e
                 \<and> (\<forall>q \<in> set prefixes. \<not> startswith (lower ?e) (lower q))"
      then have "normalize_entity_name ?e = ?e"
        by (cases "?e = []") (simp_all add: normalize_entity_name_def strip_idem)
      with a show ?thesis by (simp add: r)
    next
      assume "\<exists>p \<in> set prefixes.
                match_prefix prefixes ?e = p @ ''_'' @ lstrip_chars ''_'' (drop (length p) ?e)"
      then obtain p where p: "p \<in> set prefixes"
        and m: "match_prefix prefixes ?e = p @ ''_'' @ lstrip_chars ''_'' (drop (length p) ?e)"
        by blast
      let ?r = "p @ ''_'' @ lstrip_chars ''_'' (drop (length p) ?e)"
      have "normalize_entity_name ?r = match_prefix prefixes (strip ?r)"
        by (simp add: normalize_entity_name_def)
      also have "\<dots> = match_prefix prefixes ?r"
        using normalized_name_stripped [OF p last_e] by simp
      also have "\<dots> = ?r" using p by (rule match_prefix_fixed)
      finally show ?thesis by (simp add: r m)
    qed
  qed
next
  show "normalize_entity_name (normalize_entity_name ''Catalog_Foo'') = ''Catalog_Foo''"
    by code_simp
qed

section \<open>Normalisation of raw parameters: prefix, dropped entries, default format\<close>

lemma in_set_fst: "(a, b) \<in> set ps \<Longrightarrow> a \<in> fst ` set ps"
  by force

lemma dict_set_map_fst:
  "map fst (dict_set ps k v) = (if k \<in> set (map fst ps) then map fst ps else map fst ps @ [k])"
  by (induction ps) (auto dest: in_set_fst)

lemma dict_set_keys: "fst ` set (dict_set ps k v) = insert k (fst ` set ps)"
proof -
  have "set (map fst (dict_set ps k v)) = insert k (set (map fst ps))"
    unfolding dict_set_map_fst by auto
  then show ?thesis by simp
qed

lemma bare_keywords_normal:
  "\<forall>k \<in> set bare_keywords. strip k = k \<and> normalize_key k = ''$'' @ k \<and> k \<noteq> []"
  by code_simp

lemma bare_keyword_key:
  assumes "k \<in> set bare_keywords"
  shows "strip k = k" and "normalize_key k = ''$'' @ k" and "k \<noteq> []"
  using assms bare_keywords_normal by blast+

lemma normalize_entry_dropped: "dropped v \<Longrightarrow> normalize_entry n (k, v) = n"
  by (auto simp: normalize_entry_def dropped_def)

lemma normalize_entry_keys:
  "fst ` set (normalize_entry n (k, v))
     \<subseteq> fst ` set n \<union> (if dropped v then {} else {normalize_key (strip k)})"
  by (auto simp: normalize_entry_def dropped_def dict_set_keys Let_def)

lemma foldl_normalize_entry_keys:
  "fst ` set (foldl normalize_entry n d)
     \<subseteq> fst ` set n \<union> {normalize_key (strip k) | k v. (k, v) \<in> set d \<and> \<not> dropped v}"
proof (induction d arbitrary: n)
  case Nil
  then show ?case by simp
next
  case (Cons kv d)
  obtain k v where kv: "kv = (k, v)" by (cases kv)
  let ?S = "{normalize_key (strip k) | k v. (k, v) \<in> set d \<and> \<not> dropped v}"
  have 1: "fst ` set (foldl normalize_entry (normalize_entry n (k, v)) d)
          \<subseteq> fst ` set (normalize_entry n (k, v)) \<union> ?S"
    by (rule Cons.IH)
  have 2: "fst ` set (normalize_entry n (k, v))
          \<subseteq> fst ` set n \<union> (if dropped v then {} else {normalize_key (strip k)})"
    by (rule normalize_entry_keys)
  have 3: "(if dropped v then {} else {normalize_key (strip k)}) \<union> ?S
          \<subseteq> {normalize_key (strip k') | k' v'. (k', v') \<in> set (kv # d) \<and> \<not> dropped v'}"
    unfolding kv by (cases "dropped v") auto
  from 1 2 3 show ?case unfolding kv foldl_Cons by blast
qed

lemma normalize_params_has_format: "''$format'' \<in> fst ` set (normalize_params ps)"
  by (cases ps) (auto simp: normalize_params_def dict_set_keys Let_def)

lemma normalize_params_example:
  "normalize_params (Some [(''filter'', VStr ''A eq B''), (''top'', VInt 10)])
     = [(''$filter'', VStr ''A eq B''), (''$top'', VInt 10), (''$format'', VStr ''json'')]"
  by code_simp

lemma normalize_entry_keyword:
  assumes "k \<in> set bare_keywords" and "\<not> dropped v"
  shows "normalize_entry n (k, v)
           = dict_set n (''$'' @ k)
               (if k = ''format'' \<and> \<not> py_bool v then VStr ''json''
                else if k = ''filter'' \<and> is_str v then VStr (normalize_filter_dates (py_str v))
                else v)"
  using assms(2) bare_keyword_key [OF assms(1)]
  by (auto simp: normalize_entry_def dropped_def Let_def)

lemma normalize_params_drops:
  assumes "dropped v"
  shows "normalize_params (Some (xs @ (k, v) # ys)) = normalize_params (Some (xs @ ys))"
  using assms by (simp add: normalize_params_def normalize_entry_dropped)

lemma normalize_params_default_format:
  assumes "\<forall>(k, v) \<in> set d. dropped v \<or> normalize_key (strip k) \<noteq> ''$format''"
  shows "map_of (normalize_params (Some d)) ''$format'' = Some (VStr ''json'')"
proof -
  let ?n = "foldl normalize_entry [] d"
  have "''$format'' \<notin> {normalize_key (strip k) | k v. (k, v) \<in> set d \<and> \<not> dropped v}"
    using assms by auto
  with foldl_normalize_entry_keys [of "[]" d] have a: "''$format'' \<notin> fst ` set ?n" by auto
  then have "normalize_params (Some d) = ?n @ [(''$format'', VStr ''json'')]"
    by (simp add: normalize_params_def dict_set_absent)
  moreover from a have "map_of ?n ''$format'' = None" by (simp add: map_of_eq_None_iff)
  ultimately show ?thesis by (simp add: map_add_def)
qed

lemma map_of_dict_set: "map_of (dict_set ps k v) = (map_of ps)(k \<mapsto> v)"
  by (induction ps) auto

lemma dict_set_distinct: "distinct (map fst ps) \<Longrightarrow> distinct (map fst (dict_set ps k v))"
  by (simp add: dict_set_map_fst)

lemma normalize_entry_stored:
  "normalize_entry n (k, v)
     = (if dropped v \<or> strip k = [] then n
        else dict_set n (normalize_key (strip k)) (stored_value (normalize_key (strip k)) v))"
  by (auto simp: normalize_entry_def dropped_def stored_value_def Let_def)

lemma normalize_entry_other:
  "\<not> stored_under key kv \<Longrightarrow> map_of (normalize_entry n kv) key = map_of n key"
  by (cases kv) (auto simp: normalize_entry_stored stored_under_def map_of_dict_set)

lemma foldl_normalize_entry_other:
  "\<forall>kv \<in> set d. \<not> stored_under key kv \<Longrightarrow>
     map_of (foldl normalize_entry n d) key = map_of n key"
  by (induction d arbitrary: n) (simp_all add: normalize_entry_other)

lemma foldl_normalize_entry_distinct:
  "distinct (map fst n) \<Longrightarrow> distinct (map fst (foldl normalize_entry n d))"
proof (induction d arbitrary: n)
  case Nil
  then show ?case by simp
next
  case (Cons kv d)
  obtain k v where kv: "kv = (k, v)" by (cases kv)
  from Cons.prems have "distinct (map fst (normalize_entry n (k, v)))"
    by (simp add: normalize_entry_stored dict_set_distinct)
  with Cons.IH show ?case by (simp add: kv)
qed

lemma map_of_normalize_params:
  "map_of (normalize_params (Some d)) key
     = (case map_of (foldl normalize_entry [] d) key of
          Some v \<Rightarrow> Some v
        | None \<Rightarrow> if key = ''$format'' then Some (VStr ''json'') else None)"
proof (cases "''$format'' \<in> fst ` set (foldl normalize_entry [] d)")
  case True
  then have "map_of (foldl normalize_entry [] d) ''$format'' \<noteq> None"
    by (simp add: map_of_eq_None_iff)
  with True show ?thesis by (auto simp: normalize_params_def split: option.splits)
next
  case False
  then have n: "map_of (foldl normalize_entry [] d) ''$format'' = None"
    by (simp add: map_of_eq_None_iff)
  from False have "normalize_params (Some d)
      = foldl normalize_entry [] d @ [(''$format'', VStr ''json'')]"
    by (simp add: normalize_params_def dict_set_absent)
  with n show ?thesis by (auto simp: map_add_def split: option.splits)
qed

lemma normalize_params_kept:
  assumes "\<not> dropped v" and "strip k \<noteq> []"
    and "\<forall>kv \<in> set ys. \<not> stored_under (normalize_key (strip k)) kv"
  shows "map_of (normalize_params (Some (xs @ (k, v) # ys))) (normalize_key (strip k))
           = Some (stored_value (normalize_key (strip k)) v)"
proof -
  let ?key = "normalize_key (strip k)"
  let ?n = "foldl normalize_entry [] xs"
  have "map_of (foldl normalize_entry [] (xs @ (k, v) # ys)) ?key
          = map_of (normalize_entry ?n (k, v)) ?key"
    using assms(3) by (simp add: foldl_normalize_entry_other)
  also have "\<dots> = Some (stored_value ?key v)"
    using assms(1,2) by (simp add: normalize_entry_stored map_of_dict_set)
  finally show ?thesis by (simp add: map_of_normalize_params)
qed

lemma normalize_params_absent:
  assumes "key \<noteq> ''$format''" and "\<forall>kv \<in> set d. \<not> stored_under key kv"
  shows "map_of (normalize_params (Some d)) key = None"
  using assms foldl_normalize_entry_other [of d key "[]"]
  by (simp add: map_of_normalize_params)

lemma normalize_params_distinct: "distinct (map fst (normalize_params ps))"
proof (cases ps)
  case None
  then show ?thesis by (simp add: normalize_params_def)
next
  case (Some d)
  have "distinct (map fst (foldl normalize_entry [] d))"
    by (rule foldl_normalize_entry_distinct) simp
  then show ?thesis
    by (simp add: Some normalize_params_def dict_set_distinct Let_def)
qed

lemma repl_nonempty: "repl raw \<noteq> []"
  by (simp add: repl_def Let_def split: prod.splits)

lemma normalize_filter_dates_nonempty: "s \<noteq> [] \<Longrightarrow> normalize_filter_dates s \<noteq> []"
  by (cases s) (auto simp: normalize_filter_dates_def repl_nonempty split: option.splits)

lemma stored_value_kept: "\<not> dropped v \<Longrightarrow> \<not> dropped (stored_value key v)"
  by (cases v)
     (auto simp: stored_value_def dropped_def is_str_def Let_def normalize_filter_dates_nonempty)

lemma dict_set_entries: "set (dict_set n k v) \<subseteq> insert (k, v) (set n)"
  by (induction n) (auto split: if_splits)

lemma normalize_entry_kept:
  assumes "\<forall>e \<in> set n. \<not> dropped (snd e)"
  shows "\<forall>e \<in> set (normalize_entry n kv). \<not> dropped (snd e)"
proof (cases kv)
  case (Pair k v)
  show ?thesis
  proof (cases "dropped v \<or> strip k = []")
    case True
    with assms show ?thesis by (simp add: Pair normalize_entry_stored)
  next
    case False
    then have "\<not> dropped (stored_value (normalize_key (strip k)) v)"
      by (simp add: stored_value_kept)
    with assms False
      dict_set_entries [of n "normalize_key (strip k)" "stored_value (normalize_key (strip k)) v"]
    show ?thesis by (auto simp: Pair normalize_entry_stored)
  qed
qed

lemma foldl_normalize_entry_kept:
  "\<forall>e \<in> set n. \<not> dropped (snd e) \<Longrightarrow>
     \<forall>e \<in> set (foldl normalize_entry n d). \<not> dropped (snd e)"
proof (induction d arbitrary: n)
  case Nil
  then show ?case by simp
next
  case (Cons kv d)
  from Cons.prems have "\<forall>e \<in> set (normalize_entry n kv). \<not> dropped (snd e)"
    by (rule normalize_entry_kept)
  then have "\<forall>e \<in> set (foldl normalize_entry (normalize_entry n kv) d). \<not> dropped (snd e)"
    by (rule Cons.IH)
  then show ?case by simp
qed

lemma normalize_params_kept_values:
  assumes "(key, w) \<in> set (normalize_params ps)"
  shows "\<not> dropped w"
proof (cases ps)
  case None
  with assms show ?thesis by (simp add: normalize_params_def dropped_def)
next
  case (Some d)
  have k: "\<forall>e \<in> set (foldl normalize_entry [] d). \<not> dropped (snd e)"
    by (rule foldl_normalize_entry_kept) simp
  have j: "\<not> dropped (VStr ''json'')" by (simp add: dropped_def)
  from assms Some have "(key, w) \<in> set (foldl normalize_entry [] d)
      \<or> (key, w) \<in> set (dict_set (foldl normalize_entry [] d) ''$format'' (VStr ''json''))"
    by (simp add: normalize_params_def Let_def split: if_splits)
  with dict_set_entries [of "foldl normalize_entry [] d" "''$format''" "VStr ''json''"]
  have "(key, w) \<in> set (foldl normalize_entry [] d) \<or> w = VStr ''json''" by auto
  with k j show ?thesis by auto
qed

lemma bare_keywords_plain:
  "\<forall>k \<in> set bare_keywords. \<not> startswith k ''$'' \<and> lower (lstrip_chars ''$'' k) = k
      \<and> k \<noteq> ''$format''"
  by code_simp

lemma never_stored_bare:
  assumes "k \<in> set bare_keywords"
  shows "\<not> stored_under k kv"
proof
  assume s: "stored_under k kv"
  let ?x = "strip (fst kv)"
  from s have eq: "normalize_key ?x = k" by (simp add: stored_under_def)
  from assms bare_keywords_plain have p: "\<not> startswith k ''$''" "lower (lstrip_chars ''$'' k) = k"
    by blast+
  show False
  proof (cases "\<not> startswith ?x ''$'' \<and> lower (lstrip_chars ''$'' ?x) \<in> set bare_keywords")
    case True
    with eq have "k = ''$'' @ lower (lstrip_chars ''$'' ?x)" by (simp add: normalize_key_def Let_def)
    with p(1) show False by (simp add: startswith_def)
  next
    case False
    with eq have "?x = k" by (auto simp: normalize_key_def Let_def)
    with False p assms show False by simp
  qed
qed

lemma stored_value_keyword:
  "k \<in> set bare_keywords \<Longrightarrow>
     stored_value (''$'' @ k) v
       = (if k = ''format'' \<and> \<not> py_bool v then VStr ''json''
          else if k = ''filter'' \<and> is_str v then VStr (normalize_filter_dates (py_str v))
          else v)"
  by (auto simp: stored_value_def Let_def is_str_def)

text \<open>
  Claim C8. The normalisation of raw parameters stores an entry with a bare recognised
  keyword under the key with the \<open>$\<close> prefix and under no bare key, leaves out every
  entry whose value is \<open>None\<close> or the empty text, and always yields a \<open>$format\<close>
  entry, which is \<open>json\<close> when no entry of the input is stored under that key. The
  parameters \<open>{filter: "A eq B", top: 10}\<close> become \<open>$filter\<close>, \<open>$top\<close> and
  \<open>$format = json\<close>, in this order.

  The statement is about the result of \<open>normalize_params\<close> on a whole map, read by key:
  the last entry of the input stored under a key decides the value of that key, a key under
  which no entry is stored is absent (the default \<open>$format\<close> apart), no key occurs twice
  and no value of the result is \<open>None\<close> or the empty text.
\<close>

theorem normalize_params_spec:
  "normalize_params (Some [(''filter'', VStr ''A eq B''), (''top'', VInt 10)])
     = [(''$filter'', VStr ''A eq B''), (''$top'', VInt 10), (''$format'', VStr ''json'')]
   \<and> normalize_params None = [(''$format'', VStr ''json'')]
   \<and> (k \<in> set bare_keywords \<and> \<not> dropped v \<and> (\<forall>kv \<in> set ys. \<not> stored_under (''$'' @ k) kv)
        \<longrightarrow> map_of (normalize_params (Some (xs @ (k, v) # ys))) (''$'' @ k)
             = Some (if k = ''format'' \<and> \<not> py_bool v then VStr ''json''
                     else if k = ''filter'' \<and> is_str v
                          then VStr (normalize_filter_dates (py_str v))
                     else v)
           \<and> map_of (normalize_params (Some (xs @ (k, v) # ys))) k = None)
   \<and> (k \<in> set bare_keywords \<and> \<not> dropped v
        \<longrightarrow> normalize_entry n (k, v)
             = dict_set n (''$'' @ k)
                 (if k = ''format'' \<and> \<not> py_bool v then VStr ''json''
                  else if k = ''filter'' \<and> is_str v
                       then VStr (normalize_filter_dates (py_str v))
                  else v))
   \<and> (\<not> dropped v1 \<and> strip k1 \<noteq> []
        \<and> (\<forall>kv \<in> set ys1. \<not> stored_under (normalize_key (strip k1)) kv)
        \<longrightarrow> map_of (normalize_params (Some (xs1 @ (k1, v1) # ys1))) (normalize_key (strip k1))
             = Some (stored_value (normalize_key (strip k1)) v1))
   \<and> (dropped v2
        \<longrightarrow> normalize_params (Some (xs2 @ (k2, v2) # ys2)) = normalize_params (Some (xs2 @ ys2)))
   \<and> ((key3, w3) \<in> set (normalize_params ps3) \<longrightarrow> \<not> dropped w3)
   \<and> ''$format'' \<in> fst ` set (normalize_params ps)
   \<and> distinct (map fst (normalize_params ps))
   \<and> ((\<forall>kv \<in> set d. \<not> stored_under ''$format'' kv)
        \<longrightarrow> map_of (normalize_params (Some d)) ''$format'' = Some (VStr ''json''))
   \<and> (key5 \<noteq> ''$format'' \<and> (\<forall>kv \<in> set d5. \<not> stored_under key5 kv)
        \<longrightarrow> map_of (normalize_params (Some d5)) key5 = None)"
proof (intro conjI impI)
  show "normalize_params (Some [(''filter'', VStr ''A eq B''), (''top'', VInt 10)])
     = [(''$filter'', VStr ''A eq B''), (''$top'', VInt 10), (''$format'', VStr ''json'')]"
    by (rule normalize_params_example)
  show "normalize_params None = [(''$format'', VStr ''json'')]"
    by (simp add: normalize_params_def)
  show "''$format'' \<in> fst ` set (normalize_params ps)" by (rule normalize_params_has_format)
  show "distinct (map fst (normalize_params ps))" by (rule normalize_params_distinct)
next
  assume a: "k \<in> set bare_keywords \<and> \<not> dropped v
             \<and> (\<forall>kv \<in> set ys. \<not> stored_under (''$'' @ k) kv)"
  then have kw: "k \<in> set bare_keywords" by simp
  note b = bare_keyword_key [OF kw]
  from a b have "map_of (normalize_params (Some (xs @ (k, v) # ys))) (normalize_key (strip k))
      = Some (stored_value (normalize_key (strip k)) v)"
    by (intro normalize_params_kept) simp_all
  then show "map_of (normalize_params (Some (xs @ (k, v) # ys))) (''$'' @ k)
             = Some (if k = ''format'' \<and> \<not> py_bool v then VStr ''json''
                     else if k = ''filter'' \<and> is_str v
                          then VStr (normalize_filter_dates (py_str v))
                     else v)"
    by (simp only: b stored_value_keyword [OF kw])
next
  assume a: "k \<in> set bare_keywords \<and> \<not> dropped v
             \<and> (\<forall>kv \<in> set ys. \<not> stored_under (''$'' @ k) kv)"
  then have kw: "k \<in> set bare_keywords" by simp
  from kw bare_keywords_plain have "k \<noteq> ''$format''" by blast
  then show "map_of (normalize_params (Some (xs @ (k, v) # ys))) k = None"
    by (intro normalize_params_absent) (simp_all add: never_stored_bare [OF kw])
next
  assume "k \<in> set bare_keywords \<and> \<not> dropped v"
  then show "normalize_entry n (k, v)
             = dict_set n (''$'' @ k)
                 (if k = ''format'' \<and> \<not> py_bool v then VStr ''json''
                  else if k = ''filter'' \<and> is_str v
                       then VStr (normalize_filter_dates (py_str v))
                  else v)"
    by (simp add: normalize_entry_keyword)
next
  assume "\<not> dropped v1 \<and> strip k1 \<noteq> []
        \<and> (\<forall>kv \<in> set ys1. \<not> stored_under (normalize_key (strip k1)) kv)"
  then show "map_of (normalize_params (Some (xs1 @ (k1, v1) # ys1))) (normalize_key (strip k1))
             = Some (stored_value (normalize_key (strip k1)) v1)"
    by (intro normalize_params_kept) simp_all
next
  assume "dropped v2"
  then show "normalize_params (Some (xs2 @ (k2, v2) # ys2)) = normalize_params (Some (xs2 @ ys2))"
    by (rule normalize_params_drops)
next
  assume "(key3, w3) \<in> set (normalize_params ps3)"
  then show "\<not> dropped w3" by (rule normalize_params_kept_values)
next
  assume a: "\<forall>kv \<in> set d. \<not> stored_under ''$format'' kv"
  then have "map_of (foldl normalize_entry [] d) ''$format'' = None"
    by (simp add: foldl_normalize_entry_other)
  then show "map_of (normalize_params (Some d)) ''$format'' = Some (VStr ''json'')"
    by (simp add: map_of_normalize_params)
next
  assume "key5 \<noteq> ''$format'' \<and> (\<forall>kv \<in> set d5. \<not> stored_under key5 kv)"
  then show "map_of (normalize_params (Some d5)) key5 = None"
    by (intro normalize_params_absent) simp_all
qed

theorem normalize_params_spec_witness:
  "map_of (normalize_params (Some [(''top'', VInt 5), (''select'', VStr ''Name,Code''),
        (''expand'', VStr ''Owner'')])) ''$select'' = Some (VStr ''Name,Code'')
   \<and> map_of (normalize_params (Some [(''top'', VInt 5), (''select'', VStr ''Name,Code''),
        (''expand'', VStr ''Owner'')])) ''select'' = None
   \<and> normalize_entry [(''$top'', VInt 5)] (''select'', VStr ''Name,Code'')
       = [(''$top'', VInt 5), (''$select'', VStr ''Name,Code'')]
   \<and> map_of (normalize_params (Some [(''top'', VInt 5), ('' Custom '', VInt 1),
        (''expand'', VStr ''Owner'')])) ''Custom'' = Some (VInt 1)
   \<and> normalize_params (Some [(''top'', VInt 5), (''skip'', VNone), (''expand'', VStr ''Owner'')])
      = normalize_params (Some [(''top'', VInt 5), (''expand'', VStr ''Owner'')])
   \<and> \<not> dropped (VInt 5)
   \<and> map_of (normalize_params (Some [(''top'', VInt 5)])) ''$format'' = Some (VStr ''json'')
   \<and> map_of (normalize_params (Some [(''top'', VInt 5)])) ''$skip'' = None"
proof -
  have h1: "''select'' \<in> set bare_keywords \<and> \<not> dropped (VStr ''Name,Code'')
            \<and> (\<forall>kv \<in> set [(''expand'', VStr ''Owner'')]. \<not> stored_under (''$'' @ ''select'') kv)"
    by code_simp
  have h2: "\<not> dropped (VInt 1) \<and> strip '' Custom '' \<noteq> []
            \<and> (\<forall>kv \<in> set [(''expand'', VStr ''Owner'')].
                  \<not> stored_under (normalize_key (strip '' Custom '')) kv)"
    by code_simp
  have e2: "normalize_key (strip '' Custom '') = ''Custom''" by code_simp
  have e3: "stored_value ''Custom'' (VInt 1) = VInt 1" by code_simp
  have h3: "dropped VNone" by code_simp
  have h4: "(''$top'', VInt 5) \<in> set (normalize_params (Some [(''top'', VInt 5)]))"
    by code_simp
  have h5: "\<forall>kv \<in> set [(''top'', VInt 5)]. \<not> stored_under ''$format'' kv" by code_simp
  have h6: "''$skip'' \<noteq> ''$format'' \<and> (\<forall>kv \<in> set [(''top'', VInt 5)]. \<not> stored_under ''$skip'' kv)"
    by code_simp
  note t = normalize_params_spec [of "''select''" "VStr ''Name,Code''"
      "[(''expand'', VStr ''Owner'')]" "[(''top'', VInt 5)]" "[(''$top'', VInt 5)]"
      "VInt 1" "'' Custom ''" "[(''expand'', VStr ''Owner'')]" "[(''top'', VInt 5)]"
      VNone "[(''top'', VInt 5)]" "''skip''" "[(''expand'', VStr ''Owner'')]"
      "''$top''" "VInt 5" "Some [(''top'', VInt 5)]" None
      "[(''top'', VInt 5)]" "''$skip''" "[(''top'', VInt 5)]"]
  from t h1 have c1: "map_of (normalize_params (Some ([(''top'', VInt 5)] @ (''select'', VStr ''Name,Code'') #
        [(''expand'', VStr ''Owner'')]))) (''$'' @ ''select'') = Some (VStr ''Name,Code'')"
    and c2: "map_of (normalize_params (Some ([(''top'', VInt 5)] @ (''select'', VStr ''Name,Code'') #
        [(''expand'', VStr ''Owner'')]))) ''select'' = None"
    by simp_all
  from t h1 have c8: "normalize_entry [(''$top'', VInt 5)] (''select'', VStr ''Name,Code'')
       = dict_set [(''$top'', VInt 5)] (''$'' @ ''select'') (VStr ''Name,Code'')"
    by simp
  have e8: "dict_set [(''$top'', VInt 5)] (''$'' @ ''select'') (VStr ''Name,Code'')
       = [(''$top'', VInt 5), (''$select'', VStr ''Name,Code'')]"
    by code_simp
  from t h2 have c3: "map_of (normalize_params (Some ([(''top'', VInt 5)] @ ('' Custom '', VInt 1) #
        [(''expand'', VStr ''Owner'')]))) (normalize_key (strip '' Custom ''))
        = Some (stored_value (normalize_key (strip '' Custom '')) (VInt 1))"
    by blast
  from t h3 have c4: "normalize_params (Some ([(''top'', VInt 5)] @ (''skip'', VNone) # [(''expand'', VStr ''Owner'')]))
      = normalize_params (Some ([(''top'', VInt 5)] @ [(''expand'', VStr ''Owner'')]))"
    by blast
  from t h4 have c5: "\<not> dropped (VInt 5)" by blast
  from t h5 have c6: "map_of (normalize_params (Some [(''top'', VInt 5)])) ''$format'' = Some (VStr ''json'')"
    by blast
  from t h6 have c7: "map_of (normalize_params (Some [(''top'', VInt 5)])) ''$skip'' = None"
    by blast
  from c1 c2 c3 c4 c5 c6 c7 c8 show ?thesis by (simp add: e2 e3 e8)
qed

section \<open>Repair of field names\<close>

lemma suggest_fixes_frame:
  "entity (suggest_fixes extract_one v plan errors) = entity plan
   \<and> top (suggest_fixes extract_one v plan errors) = top plan
   \<and> expand (suggest_fixes extract_one v plan errors) = expand plan"
  by (simp add: suggest_fixes_def Let_def)

lemma get_fields_example:
  "get_fields
     (PlanValidator_init
        [\<lparr>item_type = Some ''Catalog'', item_name = Some ''X'',
          item_fields = Some [''Name'', ''name'']\<rparr>])
     ''Catalog_X'' = {''Name'', ''name''}"
  by (auto simp: get_fields_def PlanValidator_init_def build_fields_index_def item_entity_def
      fmt_opt_def)

text \<open>
  Claim C2 says that \<open>suggest_fixes\<close> leaves every field name of the known field set
  unchanged, in filter conditions as in \<open>select\<close> and \<open>orderby\<close>. The repair of the
  filter tree lacks the membership test that the other two have: it hands every field
  name to the matcher. With the known fields \<open>Name\<close> and \<open>name\<close>, and a matcher that
  answers both names with the same choice, the two conditions of the plan, both on valid
  fields, end with the same field name.
\<close>

theorem suggest_fixes_changes_valid_filter_field:
  assumes "extract_one ''name'' {''Name'', ''name''} = Some best"
    and "extract_one ''Name'' {''Name'', ''name''} = Some best"
  shows "filter_group
           (suggest_fixes extract_one
              (PlanValidator_init
                 [\<lparr>item_type = Some ''Catalog'', item_name = Some ''X'',
                   item_fields = Some [''Name'', ''name'']\<rparr>])
              \<lparr>entity = ''Catalog_X'',
               filter_group = Some (FilterGroup And
                 [Cond \<lparr>field = ''Name'', operator = EQ, val = VInt 1, val_type = TNumber\<rparr>,
                  Cond \<lparr>field = ''name'', operator = EQ, val = VInt 2, val_type = TNumber\<rparr>]),
               select = [''Nme''], orderby = [], top = None, expand = []\<rparr>
              [''Unknown field in select: Nme''])
         = Some (FilterGroup And
                 [Cond \<lparr>field = best, operator = EQ, val = VInt 1, val_type = TNumber\<rparr>,
                  Cond \<lparr>field = best, operator = EQ, val = VInt 2, val_type = TNumber\<rparr>])"
  using assms by (simp add: suggest_fixes_def get_fields_example Let_def insert_commute)

theorem suggest_fixes_changes_valid_filter_field_witness:
  "filter_group
           (suggest_fixes (\<lambda>name choices. if ''Name'' \<in> choices then Some ''Name'' else None)
              (PlanValidator_init
                 [\<lparr>item_type = Some ''Catalog'', item_name = Some ''X'',
                   item_fields = Some [''Name'', ''name'']\<rparr>])
              \<lparr>entity = ''Catalog_X'',
               filter_group = Some (FilterGroup And
                 [Cond \<lparr>field = ''Name'', operator = EQ, val = VInt 1, val_type = TNumber\<rparr>,
                  Cond \<lparr>field = ''name'', operator = EQ, val = VInt 2, val_type = TNumber\<rparr>]),
               select = [''Nme''], orderby = [], top = None, expand = []\<rparr>
              [''Unknown field in select: Nme''])
         = Some (FilterGroup And
                 [Cond \<lparr>field = ''Name'', operator = EQ, val = VInt 1, val_type = TNumber\<rparr>,
                  Cond \<lparr>field = ''Name'', operator = EQ, val = VInt 2, val_type = TNumber\<rparr>])"
  using suggest_fixes_changes_valid_filter_field
    [of "\<lambda>name choices. if ''Name'' \<in> choices then Some ''Name'' else None" "''Name''"]
  by simp

section \<open>Retries of the two clients\<close>

lemma retrying_attempts_bound:
  "n \<le> attempts (retrying left wait p fn n slept)
   \<and> attempts (retrying left wait p fn n slept) \<le> n + left"
proof (induction left arbitrary: n slept)
  case 0
  then show ?case by (simp split: sum.splits)
next
  case (Suc left)
  show ?case
  proof (cases "fn n")
    case (Inl e)
    show ?thesis
    proof (cases "p e")
      case True
      with Inl Suc.IH [of "Suc n" "slept @ [wait n]"] show ?thesis by simp
    next
      case False
      with Inl show ?thesis by simp
    qed
  next
    case (Inr r)
    then show ?thesis by simp
  qed
qed

lemma retry_at_most: "attempts (retry k wait p fn) \<le> max 1 k"
  using retrying_attempts_bound [of 1 "k - 1" wait p fn "[]"] by (auto simp: retry_def)

lemma retry_once:
  assumes "\<And>e. fn 1 = Inl e \<Longrightarrow> \<not> p e"
  shows "attempts (retry k wait p fn) = 1 \<and> outcome (retry k wait p fn) = fn 1"
  using assms by (cases "k - 1"; cases "fn 1") (auto simp: retry_def)

lemma json_first_local: "json_first j = Inl e \<Longrightarrow> \<not> is_httpx_transport e"
  by (cases j rule: json_first.cases) (auto simp: is_httpx_transport_def)

lemma message_content_local: "message_content j = Inl e \<Longrightarrow> \<not> is_httpx_transport e"
  by (cases j rule: message_content.cases)
     (auto simp: is_httpx_transport_def split: option.splits json.splits if_splits)

lemma choice_text_local: "choice_text j = Inl e \<Longrightarrow> \<not> is_httpx_transport e"
  unfolding choice_text_def
  by (auto simp: Let_def is_httpx_transport_def dest: message_content_local
      split: json.splits sum.splits option.splits)

lemma extract_llm_text_local: "extract_llm_text p = Inl e \<Longrightarrow> \<not> is_httpx_transport e"
  unfolding extract_llm_text_def
  by (auto simp: is_httpx_transport_def dest: json_first_local choice_text_local
      split: option.splits sum.splits json.splits if_splits)

lemma parse_structured_plan_local:
  "parse_structured_plan l v t = Inl e \<Longrightarrow> \<not> is_httpx_transport e"
  unfolding parse_structured_plan_def
  by (auto simp: Let_def is_httpx_transport_def split: option.splits sum.splits if_splits)

lemma generate_plan_body_local:
  "generate_plan_body self post l v = Inl e \<Longrightarrow> \<not> is_httpx_transport e"
  unfolding generate_plan_body_def
  by (auto simp: is_httpx_transport_def
      dest: extract_llm_text_local parse_structured_plan_local
      split: option.splits sum.splits if_splits exn.splits)

lemma normalize_datetime_error: "normalize_datetime v = Inl e \<Longrightarrow> \<exists>m. e = ValueError m"
  unfolding normalize_datetime_def
  by (auto simp: Let_def split: pyvalue.splits option.splits if_splits)

lemma render_condition_error: "render_condition c = Inl e \<Longrightarrow> \<exists>m. e = ValueError m"
  unfolding render_condition_def format_value_def
  by (auto dest: normalize_datetime_error split: value_type.splits sum.splits)

lemma build_error:
  "build_group g = Inl e \<Longrightarrow> \<exists>m. e = ValueError m"
  "build_parts ms = Inl e \<Longrightarrow> \<exists>m. e = ValueError m"
  by (induction g and ms rule: build_group_build_parts.induct)
     (auto dest: render_condition_error split: sum.splits if_splits)

lemma plan_params_error: "plan_params plan = Inl e \<Longrightarrow> \<exists>m. e = ValueError m"
  unfolding plan_params_def ODataFilterBuilder_build_def
  by (auto simp: Let_def dest: build_error split: option.splits sum.splits if_splits)

lemma fetch_body_client_error:
  assumes "\<And>url. get url = Inl e" and "is_aiohttp_ClientError e"
    and "fetch_body self plan extra get = Inl e'"
  shows "\<not> is_aiohttp_transport e'"
  using assms unfolding fetch_body_def
  by (auto simp: Let_def is_aiohttp_transport_def dest: plan_params_error
      split: sum.splits)

text \<open>
  Claim C1 says that both clients retry exactly the transport failures. In
  \<open>generate_plan\<close> every exception of the request is turned into \<open>LLMClientError\<close>
  inside the decorated function, so the retry predicate never holds: the method makes one
  attempt, whatever the backend does, also on a timeout. In \<open>fetch\<close> an
  \<open>aiohttp.ClientError\<close> is turned into \<open>ODataClientError\<close> in the same way and is not
  retried either; only a bare timeout reaches the decorator.
\<close>

theorem transport_failures_not_retried:
  "attempts (generate_plan self backend json_loads model_validate) = 1
   \<and> (api_key self \<noteq> [] \<and> model_id self \<noteq> [] \<and> (\<forall>b. backend 1 b = Inl HttpxTimeoutException)
        \<longrightarrow> outcome (generate_plan self backend json_loads model_validate)
             = Inl (LLMClientError ''LLM request failed: ''))
   \<and> ((\<forall>url. server 1 url = Inl e) \<and> is_aiohttp_ClientError e
        \<longrightarrow> attempts (fetch client plan extra_params server) = 1)"
proof (intro conjI impI)
  have once: "attempts (generate_plan self backend json_loads model_validate) = 1
      \<and> outcome (generate_plan self backend json_loads model_validate)
          = generate_plan_body self (backend 1) json_loads model_validate"
    unfolding generate_plan_def by (rule retry_once) (rule generate_plan_body_local)
  then show "attempts (generate_plan self backend json_loads model_validate) = 1" by simp
  assume "api_key self \<noteq> [] \<and> model_id self \<noteq> [] \<and> (\<forall>b. backend 1 b = Inl HttpxTimeoutException)"
  with once show "outcome (generate_plan self backend json_loads model_validate)
             = Inl (LLMClientError ''LLM request failed: '')"
    by (simp add: generate_plan_body_def)
next
  assume a: "(\<forall>url. server 1 url = Inl e) \<and> is_aiohttp_ClientError e"
  show "attempts (fetch client plan extra_params server) = 1"
    unfolding fetch_def
    using retry_once [of "\<lambda>n. fetch_body client plan extra_params (server n)"
        is_aiohttp_transport 3 "wait_exponential 500 500 5000"]
      fetch_body_client_error [of "server 1" e client plan extra_params] a
    by blast
qed

theorem transport_failures_not_retried_witness:
  "outcome (generate_plan \<lparr>api_key = ''k'', model_id = ''m'', use_structured_output = True\<rparr>
              (\<lambda>n b. Inl HttpxTimeoutException) (\<lambda>s. None) (\<lambda>j. Inl []))
     = Inl (LLMClientError ''LLM request failed: '')
   \<and> attempts (generate_plan \<lparr>api_key = ''k'', model_id = ''m'', use_structured_output = True\<rparr>
              (\<lambda>n b. Inl HttpxTimeoutException) (\<lambda>s. None) (\<lambda>j. Inl [])) = 1
   \<and> is_aiohttp_ClientError AiohttpClientError
   \<and> attempts (fetch \<lparr>base_url = ''http://h'', username = [], password = []\<rparr>
                 \<lparr>entity = ''Catalog_X'', filter_group = None, select = [], orderby = [],
                  top = None, expand = []\<rparr>
                 None (\<lambda>n url. Inl AiohttpClientError)) = 1"
proof -
  have c: "is_aiohttp_ClientError AiohttpClientError" by (simp add: is_aiohttp_ClientError_def)
  from transport_failures_not_retried
    [of "\<lparr>api_key = ''k'', model_id = ''m'', use_structured_output = True\<rparr>"
        "\<lambda>n b. Inl HttpxTimeoutException" "\<lambda>s. None" "\<lambda>j. Inl []"
        "\<lambda>n url. Inl AiohttpClientError" AiohttpClientError
        "\<lparr>base_url = ''http://h'', username = [], password = []\<rparr>"
        "\<lparr>entity = ''Catalog_X'', filter_group = None, select = [], orderby = [],
          top = None, expand = []\<rparr>" None] c
  show ?thesis by simp
qed

lemma fetch_retries_timeouts:
  "fetch \<lparr>base_url = ''http://h'', username = [], password = []\<rparr>
     \<lparr>entity = ''Catalog_X'', filter_group = None, select = [], orderby = [],
      top = None, expand = []\<rparr>
     None (\<lambda>n url. Inl AsyncioTimeoutError)
   = \<lparr>outcome = Inl RetryError, attempts = 3, sleeps = [500, 1000]\<rparr>"
  by code_simp

section \<open>Plan parsing\<close>

text \<open>
  Claim C5 says that a text for which both parse attempts fail surfaces as a plan-parse
  error with the raw text. The second \<open>json.loads\<close>, on the matched span, is outside
  the \<open>try\<close>: where the text is not JSON, holds a brace span and the span is not JSON
  either, \<open>JSONDecodeError\<close> leaves \<open>_parse_structured_plan\<close> and passes through
  \<open>generate_plan\<close> unchanged.
\<close>

theorem plan_parse_failure_unclassified:
  assumes "strip txt \<noteq> []"
    and "json_loads (strip txt) = None"
    and "json_pattern_search (strip txt) = Some m"
    and "json_loads m = None"
  shows "parse_structured_plan json_loads model_validate txt = Inl JSONDecodeError
         \<and> (api_key self \<noteq> [] \<and> model_id self \<noteq> []
              \<and> post (use_structured_output self) = Inr response
              \<and> llm_status_code response < 400 \<and> llm_json response = Some payload_json
              \<and> extract_llm_text payload_json = Inr txt
             \<longrightarrow> generate_plan_body self post json_loads model_validate = Inl JSONDecodeError)"
proof -
  from assms(1) have "txt \<noteq> []" by (auto simp: strip_def lstrip_def rstrip_def)
  with assms have p: "parse_structured_plan json_loads model_validate txt = Inl JSONDecodeError"
    by (simp add: parse_structured_plan_def)
  then show ?thesis by (auto simp: generate_plan_body_def)
qed

theorem plan_parse_failure_unclassified_witness:
  "strip ''Plan: {entity: Catalog_X}'' \<noteq> []
   \<and> json_pattern_search (strip ''Plan: {entity: Catalog_X}'') = Some ''{entity: Catalog_X}''
   \<and> parse_structured_plan (\<lambda>s. if s = ''{}'' then Some (JDict []) else None) (\<lambda>j. Inl [])
        ''Plan: {entity: Catalog_X}'' = Inl JSONDecodeError
   \<and> generate_plan_body \<lparr>api_key = ''k'', model_id = ''m'', use_structured_output = True\<rparr>
        (\<lambda>b. Inr \<lparr>llm_status_code = 200, llm_text = [],
                  llm_json = Some [(''result'', JStr ''Plan: {entity: Catalog_X}'')]\<rparr>)
        (\<lambda>s. if s = ''{}'' then Some (JDict []) else None) (\<lambda>j. Inl [])
       = Inl JSONDecodeError"
proof -
  let ?t = "''Plan: {entity: Catalog_X}''"
  let ?l = "\<lambda>s. if s = ''{}'' then Some (JDict []) else None"
  have s: "strip ?t = ?t" by code_simp
  have a: "strip ?t \<noteq> []" by (simp add: s)
  have b: "?l (strip ?t) = None" by (simp add: s)
  have c: "json_pattern_search (strip ?t) = Some ''{entity: Catalog_X}''"
    unfolding s by code_simp
  have d: "?l ''{entity: Catalog_X}'' = None" by simp
  have e: "extract_llm_text [(''result'', JStr ?t)] = Inr ?t" by code_simp
  from plan_parse_failure_unclassified [of ?t ?l "''{entity: Catalog_X}''" "\<lambda>j. Inl []"
      "\<lparr>api_key = ''k'', model_id = ''m'', use_structured_output = True\<rparr>"
      "\<lambda>b. Inr \<lparr>llm_status_code = 200, llm_text = [],
                  llm_json = Some [(''result'', JStr ?t)]\<rparr>"
      "\<lparr>llm_status_code = 200, llm_text = [], llm_json = Some [(''result'', JStr ?t)]\<rparr>"
      "[(''result'', JStr ?t)]", OF a b c d] a c e
  show ?thesis by simp
qed

section \<open>Formatting of datetime values\<close>

lemma digit_of_digit_char_table:
  "\<forall>k \<in> set [0 ..< 10]. digit_of (digit_char k) = Some k \<and> \<not> is_space (digit_char k)
     \<and> lower_char (digit_char k) = digit_char k
     \<and> digit_char k \<notin> set ''-.:Tt ''"
  by code_simp

lemma digit_char_mod: "digit_char (n mod 10) = digit_char n"
  by (simp add: digit_char_def)

lemma digit_char_facts:
  "digit_of (digit_char n) = Some (n mod 10)"
  "lower_char (digit_char n) = digit_char n"
  "digit_char n \<notin> set ''-.:Tt ''"
  "\<not> is_space (digit_char n)"
proof -
  have "n mod 10 \<in> set [0 ..< 10]" by simp
  with digit_of_digit_char_table
  have *: "digit_of (digit_char (n mod 10)) = Some (n mod 10)
       \<and> lower_char (digit_char (n mod 10)) = digit_char (n mod 10)
       \<and> digit_char (n mod 10) \<notin> set ''-.:Tt ''
       \<and> \<not> is_space (digit_char (n mod 10))"
    by blast
  from * show "digit_of (digit_char n) = Some (n mod 10)" unfolding digit_char_mod by blast
  from * show "lower_char (digit_char n) = digit_char n" unfolding digit_char_mod by blast
  from * show "digit_char n \<notin> set ''-.:Tt ''" unfolding digit_char_mod by blast
  from * show "\<not> is_space (digit_char n)" unfolding digit_char_mod by blast
qed

lemma str_nat_1: "n < 10 \<Longrightarrow> str_nat n = [digit_char n]"
  by (simp add: str_nat.simps)

lemma str_nat_2:
  assumes "10 \<le> n" and "n < 100"
  shows "str_nat n = [digit_char (n div 10), digit_char n]"
proof -
  from assms have "n div 10 < 10" by simp
  then have a: "str_nat (n div 10) = [digit_char (n div 10)]" by (rule str_nat_1)
  have "str_nat n = str_nat (n div 10) @ [digit_char n]"
    using assms(1) by (subst str_nat.simps) simp
  with a show ?thesis by simp
qed

lemma div_10_100: "(n::nat) div 10 div 10 = n div 100"
  by (simp add: div_mult2_eq [symmetric])

lemma div_10_1000: "(n::nat) div 10 div 100 = n div 1000"
  by (simp add: div_mult2_eq [symmetric])

lemma str_nat_3:
  assumes "100 \<le> n" and "n < 1000"
  shows "str_nat n = [digit_char (n div 100), digit_char (n div 10), digit_char n]"
proof -
  from assms have "10 \<le> n div 10" "n div 10 < 100" by simp_all
  then have a: "str_nat (n div 10) = [digit_char (n div 10 div 10), digit_char (n div 10)]"
    by (rule str_nat_2)
  have "str_nat n = str_nat (n div 10) @ [digit_char n]"
    using assms(1) by (subst str_nat.simps) simp
  with a show ?thesis by (simp add: div_10_100)
qed

lemma str_nat_4:
  assumes "1000 \<le> n" and "n < 10000"
  shows "str_nat n
           = [digit_char (n div 1000), digit_char (n div 100), digit_char (n div 10), digit_char n]"
proof -
  from assms have "100 \<le> n div 10" "n div 10 < 1000" by simp_all
  then have a: "str_nat (n div 10)
      = [digit_char (n div 10 div 100), digit_char (n div 10 div 10), digit_char (n div 10)]"
    by (rule str_nat_3)
  have "str_nat n = str_nat (n div 10) @ [digit_char n]"
    using assms(1) by (subst str_nat.simps) simp
  with a show ?thesis by (simp add: div_10_100 div_10_1000)
qed

lemma digit_char_0: "digit_char 0 = CHR ''0''"
  by (simp add: digit_char_def)

lemma zpad_2:
  assumes "n < 100"
  shows "zpad 2 n = [digit_char (n div 10), digit_char n]"
proof (cases "n < 10")
  case True
  then have "str_nat n = [digit_char n]" by (rule str_nat_1)
  with True show ?thesis by (simp add: zpad_def digit_char_0)
next
  case False
  with assms have "str_nat n = [digit_char (n div 10), digit_char n]"
    by (intro str_nat_2) simp_all
  then show ?thesis by (simp add: zpad_def)
qed

lemma replicate_3: "replicate 3 x = [x, x, x]"
  by (simp add: numeral_3_eq_3)

lemma zpad_4:
  assumes "n < 10000"
  shows "zpad 4 n
           = [digit_char (n div 1000), digit_char (n div 100), digit_char (n div 10), digit_char n]"
proof -
  consider "n < 10" | "10 \<le> n" "n < 100" | "100 \<le> n" "n < 1000" | "1000 \<le> n"
    by linarith
  then show ?thesis
  proof cases
    case 1
    then have "str_nat n = [digit_char n]" by (rule str_nat_1)
    with 1 show ?thesis by (simp add: zpad_def digit_char_0 replicate_3)
  next
    case 2
    then have "str_nat n = [digit_char (n div 10), digit_char n]" by (rule str_nat_2)
    with 2 show ?thesis by (simp add: zpad_def digit_char_0 numeral_2_eq_2)
  next
    case 3
    then have "str_nat n = [digit_char (n div 100), digit_char (n div 10), digit_char n]"
      by (rule str_nat_3)
    with 3 show ?thesis by (simp add: zpad_def digit_char_0)
  next
    case 4
    with assms have "str_nat n
        = [digit_char (n div 1000), digit_char (n div 100), digit_char (n div 10), digit_char n]"
      by (intro str_nat_4)
    then show ?thesis by (simp add: zpad_def)
  qed
qed

lemma two_digits_digit_char:
  "two_digits ok (digit_char a # digit_char b # r)
     = (if ok (a mod 10) (b mod 10) then [(10 * (a mod 10) + b mod 10, r)] else [])"
  by (simp add: two_digits_def digit_char_facts)

lemma one_digit_digit_char:
  "one_digit ok (digit_char a # r) = (if ok (a mod 10) then [(a mod 10, r)] else [])"
  by (simp add: one_digit_def digit_char_facts)

lemma two_digit_value: "(n::nat) < 100 \<Longrightarrow> 10 * (n div 10 mod 10) + n mod 10 = n"
proof -
  assume "n < 100"
  then have "n div 10 < 10" by simp
  then have "n div 10 mod 10 = n div 10" by simp
  then show ?thesis by simp
qed

lemma four_digit_value:
  assumes "(y::nat) < 10000"
  shows "1000 * (y div 1000 mod 10) + 100 * (y div 100 mod 10) + 10 * (y div 10 mod 10) + y mod 10 = y"
proof -
  have a: "y = 10 * (y div 10) + y mod 10" by simp
  have b: "y div 10 = 10 * (y div 10 div 10) + y div 10 mod 10" by simp
  have c: "y div 100 = 10 * (y div 100 div 10) + y div 100 mod 10" by simp
  have d: "y div 100 div 10 = y div 1000" by (simp add: div_mult2_eq [symmetric])
  from assms have "y div 1000 < 10" by simp
  then have e: "y div 1000 mod 10 = y div 1000" by simp
  from a b c d e div_10_100 [of y] show ?thesis by linarith
qed

lemma two_digits_zpad:
  assumes "n < 100"
  shows "two_digits ok (zpad 2 n @ r) = (if ok (n div 10) (n mod 10) then [(n, r)] else [])"
proof -
  from assms have "n div 10 < 10" by simp
  then have "n div 10 mod 10 = n div 10" by simp
  with two_digit_value [OF assms] show ?thesis
    by (simp add: zpad_2 [OF assms] two_digits_digit_char)
qed

lemma one_digit_zpad:
  assumes "n < 100"
  shows "one_digit ok (zpad 2 n @ r)
           = (if ok (n div 10) then [(n div 10, digit_char n # r)] else [])"
proof -
  from assms have "n div 10 < 10" by simp
  then have "n div 10 mod 10 = n div 10" by simp
  then show ?thesis by (simp add: zpad_2 [OF assms] one_digit_digit_char)
qed

lemma re_Y_zpad:
  assumes "y < 10000"
  shows "re_Y (zpad 4 y @ r) = [(y, r)]"
  using four_digit_value [OF assms]
  by (simp only: zpad_4 [OF assms] re_Y_def digit_char_facts append_Cons append_Nil
      list.case option.case prod.case)

lemma month_digits:
  "1 \<le> (m::nat) \<Longrightarrow> m \<le> 12 \<Longrightarrow> m div 10 = 1 \<and> m mod 10 \<le> 2 \<or> m div 10 = 0 \<and> 1 \<le> m mod 10"
  by presburger

lemma day_digits:
  "1 \<le> (d::nat) \<Longrightarrow> d \<le> 31 \<Longrightarrow>
     d div 10 = 3 \<and> d mod 10 \<le> 1 \<or> 1 \<le> d div 10 \<and> d div 10 \<le> 2
     \<or> d div 10 = 0 \<and> 1 \<le> d mod 10"
  by presburger

lemma hour_digits:
  "(h::nat) \<le> 23 \<Longrightarrow> h div 10 = 2 \<and> h mod 10 \<le> 3 \<or> h div 10 \<le> 1"
  by presburger

lemma minute_digits: "(n::nat) \<le> 59 \<Longrightarrow> n div 10 \<le> 5 \<and> n div 10 \<noteq> 6"
  by presburger

lemma first_some_head: "xs = x # rest \<Longrightarrow> f x = Some y \<Longrightarrow> first_some f xs = Some y"
  by simp

lemma first_some_Some: "first_some f xs = Some y \<Longrightarrow> \<exists>x \<in> set xs. f x = Some y"
  by (induction xs) (auto split: option.splits)

lemma re_m_zpad:
  assumes "1 \<le> m" and "m \<le> 12"
  shows "\<exists>rest. re_m (zpad 2 m @ r) = (m, r) # rest"
proof -
  from assms have lt: "m < 100" by simp
  from month_digits [OF assms] show ?thesis
    by (auto simp: re_m_def two_digits_zpad [OF lt])
qed

lemma re_d_zpad:
  assumes "1 \<le> d" and "d \<le> 31"
  shows "\<exists>rest. re_d (zpad 2 d @ r) = (d, r) # rest"
proof -
  from assms have lt: "d < 100" by simp
  from day_digits [OF assms] show ?thesis
    by (auto simp: re_d_def two_digits_zpad [OF lt])
qed

lemma re_H_zpad:
  assumes "h \<le> 23"
  shows "\<exists>rest. re_H (zpad 2 h @ r) = (h, r) # rest"
proof -
  from assms have lt: "h < 100" by simp
  from hour_digits [OF assms] show ?thesis
    by (auto simp: re_H_def two_digits_zpad [OF lt])
qed

lemma re_M_zpad:
  assumes "n \<le> 59"
  shows "\<exists>rest. re_M (zpad 2 n @ r) = (n, r) # rest"
proof -
  from assms have lt: "n < 100" by simp
  from minute_digits [OF assms] show ?thesis
    by (auto simp: re_M_def two_digits_zpad [OF lt])
qed

lemma re_S_zpad:
  assumes "n \<le> 59"
  shows "\<exists>rest. re_S (zpad 2 n @ r) = (n, r) # rest"
proof -
  from assms have lt: "n < 100" by simp
  from minute_digits [OF assms] show ?thesis
    by (auto simp: re_S_def two_digits_zpad [OF lt])
qed

lemma mf_Y:
  assumes "y < 10000" and "match_format ds r (t\<lparr>year := y\<rparr>) = Some res"
  shows "match_format (DY # ds) (zpad 4 y @ r) t = Some res"
  using assms by (simp add: re_Y_zpad)

lemma mf_m:
  assumes "1 \<le> m" and "m \<le> 12" and "match_format ds r (t\<lparr>month := m\<rparr>) = Some res"
  shows "match_format (Dm # ds) (zpad 2 m @ r) t = Some res"
proof -
  from re_m_zpad [OF assms(1,2)] obtain rest where "re_m (zpad 2 m @ r) = (m, r) # rest" ..
  with assms(3) show ?thesis by simp
qed

lemma mf_d:
  assumes "1 \<le> d" and "d \<le> 31" and "match_format ds r (t\<lparr>day := d\<rparr>) = Some res"
  shows "match_format (Dd # ds) (zpad 2 d @ r) t = Some res"
proof -
  from re_d_zpad [OF assms(1,2)] obtain rest where "re_d (zpad 2 d @ r) = (d, r) # rest" ..
  with assms(3) show ?thesis by simp
qed

lemma mf_H:
  assumes "h \<le> 23" and "match_format ds r (t\<lparr>hour := h\<rparr>) = Some res"
  shows "match_format (DH # ds) (zpad 2 h @ r) t = Some res"
proof -
  from re_H_zpad [OF assms(1)] obtain rest where "re_H (zpad 2 h @ r) = (h, r) # rest" ..
  with assms(2) show ?thesis by simp
qed

lemma mf_M:
  assumes "n \<le> 59" and "match_format ds r (t\<lparr>minute := n\<rparr>) = Some res"
  shows "match_format (DM # ds) (zpad 2 n @ r) t = Some res"
proof -
  from re_M_zpad [OF assms(1)] obtain rest where "re_M (zpad 2 n @ r) = (n, r) # rest" ..
  with assms(2) show ?thesis by simp
qed

lemma mf_S:
  assumes "n \<le> 59" and "match_format ds r (t\<lparr>second := n\<rparr>) = Some res"
  shows "match_format (DS # ds) (zpad 2 n @ r) t = Some res"
proof -
  from re_S_zpad [OF assms(1)] obtain rest where "re_S (zpad 2 n @ r) = (n, r) # rest" ..
  with assms(2) show ?thesis by simp
qed

lemma mf_Lit:
  assumes "match_format ds r t = Some res"
  shows "match_format (Lit c # ds) (c # r) t = Some res"
  using assms by (simp add: re_lit_def)

lemma is_space_blank: "is_space (CHR '' '')"
  by (simp add: is_space_def)

lemma mf_Spaces:
  assumes "n < 100" and "match_format ds (zpad 2 n @ r) t = Some res"
  shows "match_format (Spaces # ds) (CHR '' '' # zpad 2 n @ r) t = Some res"
proof -
  have "takeWhile is_space (CHR '' '' # zpad 2 n @ r) = '' ''"
    by (simp add: zpad_2 [OF assms(1)] digit_char_facts is_space_blank)
  then have "re_spaces (CHR '' '' # zpad 2 n @ r) = [zpad 2 n @ r]"
    by (simp add: re_spaces_def)
  with assms(2) show ?thesis by simp
qed

lemma mf_Nil: "match_format [] s t = Some (t, s)"
  by simp

lemma formats_compiled:
  "compile_format ''%Y-%m-%dT%H:%M:%S''
     = [DY, Lit (CHR ''-''), Dm, Lit (CHR ''-''), Dd, Lit (CHR ''T''), DH, Lit (CHR '':''), DM,
        Lit (CHR '':''), DS]"
  "compile_format ''%Y-%m-%dT%H:%M''
     = [DY, Lit (CHR ''-''), Dm, Lit (CHR ''-''), Dd, Lit (CHR ''T''), DH, Lit (CHR '':''), DM]"
  "compile_format ''%Y-%m-%d'' = [DY, Lit (CHR ''-''), Dm, Lit (CHR ''-''), Dd]"
  "compile_format ''%d.%m.%Y %H:%M:%S''
     = [Dd, Lit (CHR ''.''), Dm, Lit (CHR ''.''), DY, Spaces, DH, Lit (CHR '':''), DM,
        Lit (CHR '':''), DS]"
  "compile_format ''%d.%m.%Y %H:%M''
     = [Dd, Lit (CHR ''.''), Dm, Lit (CHR ''.''), DY, Spaces, DH, Lit (CHR '':''), DM]"
  "compile_format ''%d.%m.%Y'' = [Dd, Lit (CHR ''.''), Dm, Lit (CHR ''.''), DY]"
  by code_simp+

lemma days_in_month_le: "days_in_month y m \<le> 31"
  by (simp add: days_in_month_def)

lemma valid_dateD:
  assumes "valid_date y m d"
  shows "y < 10000" "1 \<le> m" "m \<le> 12" "1 \<le> d" "d \<le> 31"
  using assms days_in_month_le [of y m] by (auto simp: valid_date_def)

lemma strptime_from_match:
  assumes "match_format (compile_format fmt) txt strptime_default = Some (t, [])"
    and "valid_datetime t" and "microsecond t = 0" and "utcoffset t = None"
  shows "parsed_fields (strptime txt fmt) (year t) (month t) (day t) (hour t) (minute t) (second t)"
  using assms by (simp add: strptime_def parsed_fields_def)

lemma strptime_ymd:
  assumes "valid_date y m d"
  shows "parsed_fields (strptime (ymd_text y m d) ''%Y-%m-%d'') y m d 0 0 0"
proof -
  note v = valid_dateD [OF assms]
  let ?t = "strptime_default\<lparr>year := y, month := m, day := d\<rparr>"
  have shape: "ymd_text y m d = zpad 4 y @ CHR ''-'' # zpad 2 m @ CHR ''-'' # zpad 2 d @ []"
    by (simp add: ymd_text_def)
  have "match_format (compile_format ''%Y-%m-%d'') (ymd_text y m d) strptime_default
          = Some (?t, [])"
    unfolding formats_compiled shape
    by (intro mf_Y mf_m mf_d mf_Lit v) (rule mf_Nil)
  moreover have "valid_datetime ?t"
    using assms by (simp add: valid_datetime_def valid_date_def strptime_default_def)
  ultimately have "parsed_fields (strptime (ymd_text y m d) ''%Y-%m-%d'')
      (year ?t) (month ?t) (day ?t) (hour ?t) (minute ?t) (second ?t)"
    by (rule strptime_from_match) (simp_all add: strptime_default_def)
  then show ?thesis by (simp add: strptime_default_def)
qed

lemma valid_timeD:
  assumes "valid_time h mi s"
  shows "h \<le> 23" "mi \<le> 59" "s \<le> 59" "h < 100"
  using assms by (auto simp: valid_time_def)

lemma strptime_ymd_hms:
  assumes "valid_date y m d" and "valid_time h mi s"
  shows "parsed_fields (strptime (ymd_text y m d @ ''T'' @ hms_text h mi s) ''%Y-%m-%dT%H:%M:%S'')
           y m d h mi s"
proof -
  note v = valid_dateD [OF assms(1)] valid_timeD [OF assms(2)]
  let ?t = "strptime_default\<lparr>year := y, month := m, day := d, hour := h, minute := mi,
              second := s\<rparr>"
  have shape: "ymd_text y m d @ ''T'' @ hms_text h mi s
      = zpad 4 y @ CHR ''-'' # zpad 2 m @ CHR ''-'' # zpad 2 d @ CHR ''T'' # zpad 2 h
        @ CHR '':'' # zpad 2 mi @ CHR '':'' # zpad 2 s @ []"
    by (simp add: ymd_text_def hms_text_def)
  have "match_format (compile_format ''%Y-%m-%dT%H:%M:%S'')
          (ymd_text y m d @ ''T'' @ hms_text h mi s) strptime_default = Some (?t, [])"
    unfolding formats_compiled shape
    by (intro mf_Y mf_m mf_d mf_H mf_M mf_S mf_Lit v) (rule mf_Nil)
  moreover have "valid_datetime ?t"
    using assms by (simp add: valid_datetime_def valid_date_def valid_time_def strptime_default_def)
  ultimately have "parsed_fields
      (strptime (ymd_text y m d @ ''T'' @ hms_text h mi s) ''%Y-%m-%dT%H:%M:%S'')
      (year ?t) (month ?t) (day ?t) (hour ?t) (minute ?t) (second ?t)"
    by (rule strptime_from_match) (simp_all add: strptime_default_def)
  then show ?thesis by (simp add: strptime_default_def)
qed

lemma strptime_dmy:
  assumes "valid_date y m d"
  shows "parsed_fields (strptime (dmy_text y m d) ''%d.%m.%Y'') y m d 0 0 0"
proof -
  note v = valid_dateD [OF assms]
  let ?t = "strptime_default\<lparr>day := d, month := m, year := y\<rparr>"
  have shape: "dmy_text y m d = zpad 2 d @ CHR ''.'' # zpad 2 m @ CHR ''.'' # zpad 4 y @ []"
    by (simp add: dmy_text_def)
  have "match_format (compile_format ''%d.%m.%Y'') (dmy_text y m d) strptime_default
          = Some (?t, [])"
    unfolding formats_compiled shape
    by (intro mf_Y mf_m mf_d mf_Lit v) (rule mf_Nil)
  moreover have "valid_datetime ?t"
    using assms by (simp add: valid_datetime_def valid_date_def strptime_default_def)
  ultimately have "parsed_fields (strptime (dmy_text y m d) ''%d.%m.%Y'')
      (year ?t) (month ?t) (day ?t) (hour ?t) (minute ?t) (second ?t)"
    by (rule strptime_from_match) (simp_all add: strptime_default_def)
  then show ?thesis by (simp add: strptime_default_def)
qed

lemma strptime_dmy_hm:
  assumes "valid_date y m d" and "valid_time h mi 0"
  shows "parsed_fields (strptime (dmy_text y m d @ '' '' @ hm_text h mi) ''%d.%m.%Y %H:%M'')
           y m d h mi 0"
proof -
  note v = valid_dateD [OF assms(1)] valid_timeD [OF assms(2)]
  let ?t = "strptime_default\<lparr>day := d, month := m, year := y, hour := h, minute := mi\<rparr>"
  have shape: "dmy_text y m d @ '' '' @ hm_text h mi
      = zpad 2 d @ CHR ''.'' # zpad 2 m @ CHR ''.'' # zpad 4 y @ CHR '' '' # zpad 2 h
        @ CHR '':'' # zpad 2 mi @ []"
    by (simp add: dmy_text_def hm_text_def)
  have "match_format (compile_format ''%d.%m.%Y %H:%M'')
          (dmy_text y m d @ '' '' @ hm_text h mi) strptime_default = Some (?t, [])"
    unfolding formats_compiled shape
    by (intro mf_Y mf_m mf_d mf_Spaces mf_H mf_M mf_Lit v) (rule mf_Nil)
  moreover have "valid_datetime ?t"
    using assms by (simp add: valid_datetime_def valid_date_def valid_time_def strptime_default_def)
  ultimately have "parsed_fields
      (strptime (dmy_text y m d @ '' '' @ hm_text h mi) ''%d.%m.%Y %H:%M'')
      (year ?t) (month ?t) (day ?t) (hour ?t) (minute ?t) (second ?t)"
    by (rule strptime_from_match) (simp_all add: strptime_default_def)
  then show ?thesis by (simp add: strptime_default_def)
qed

lemma strptime_dmy_hms:
  assumes "valid_date y m d" and "valid_time h mi s"
  shows "parsed_fields (strptime (dmy_text y m d @ '' '' @ hms_text h mi s) ''%d.%m.%Y %H:%M:%S'')
           y m d h mi s"
proof -
  note v = valid_dateD [OF assms(1)] valid_timeD [OF assms(2)]
  let ?t = "strptime_default\<lparr>day := d, month := m, year := y, hour := h, minute := mi,
              second := s\<rparr>"
  have shape: "dmy_text y m d @ '' '' @ hms_text h mi s
      = zpad 2 d @ CHR ''.'' # zpad 2 m @ CHR ''.'' # zpad 4 y @ CHR '' '' # zpad 2 h
        @ CHR '':'' # zpad 2 mi @ CHR '':'' # zpad 2 s @ []"
    by (simp add: dmy_text_def hms_text_def)
  have "match_format (compile_format ''%d.%m.%Y %H:%M:%S'')
          (dmy_text y m d @ '' '' @ hms_text h mi s) strptime_default = Some (?t, [])"
    unfolding formats_compiled shape
    by (intro mf_Y mf_m mf_d mf_Spaces mf_H mf_M mf_S mf_Lit v) (rule mf_Nil)
  moreover have "valid_datetime ?t"
    using assms by (simp add: valid_datetime_def valid_date_def valid_time_def strptime_default_def)
  ultimately have "parsed_fields
      (strptime (dmy_text y m d @ '' '' @ hms_text h mi s) ''%d.%m.%Y %H:%M:%S'')
      (year ?t) (month ?t) (day ?t) (hour ?t) (minute ?t) (second ?t)"
    by (rule strptime_from_match) (simp_all add: strptime_default_def)
  then show ?thesis by (simp add: strptime_default_def)
qed

lemma count_ci_drop: "count_ci c (drop k s) \<le> count_ci c s"
proof -
  have "count_ci c s = count_ci c (take k s) + count_ci c (drop k s)"
    unfolding count_ci_def by (metis append_take_drop_id filter_append length_append)
  then show ?thesis by simp
qed

lemma two_digits_rest: "(v, r) \<in> set (two_digits ok s) \<Longrightarrow> r = drop 2 s"
  by (auto simp: two_digits_def split: list.splits option.splits if_splits)

lemma one_digit_rest: "(v, r) \<in> set (one_digit ok s) \<Longrightarrow> r = drop 1 s"
  by (auto simp: one_digit_def split: list.splits option.splits if_splits)

lemma re_Y_rest: "(v, r) \<in> set (re_Y s) \<Longrightarrow> r = drop 4 s"
  by (auto simp: re_Y_def split: list.splits option.splits if_splits)

lemma re_d_rest: "(v, r) \<in> set (re_d s) \<Longrightarrow> \<exists>k. r = drop k s"
proof -
  assume a: "(v, r) \<in> set (re_d s)"
  show ?thesis
  proof (cases s)
    case Nil
    with a show ?thesis by (auto simp: re_d_def dest: two_digits_rest one_digit_rest)
  next
    case (Cons c s')
    with a consider "r = drop 2 s" | "r = drop 1 s" | "c = CHR '' ''" "r = drop 1 s'"
      by (auto simp: re_d_def dest: two_digits_rest one_digit_rest split: if_splits)
    then show ?thesis
    proof cases
      case 3
      with Cons have "r = drop 2 s" by simp
      then show ?thesis by blast
    qed blast+
  qed
qed

lemma step_rest:
  assumes "(t1, r1) \<in> set (step d s t)"
  shows "\<exists>k. r1 = drop k s"
proof (cases d)
  case DY
  with assms show ?thesis by (auto dest: re_Y_rest)
next
  case Dm
  with assms show ?thesis by (auto simp: re_m_def dest: two_digits_rest one_digit_rest)
next
  case Dd
  with assms show ?thesis by (auto dest: re_d_rest)
next
  case DH
  with assms show ?thesis by (auto simp: re_H_def dest: two_digits_rest one_digit_rest)
next
  case DM
  with assms show ?thesis by (auto simp: re_M_def dest: two_digits_rest one_digit_rest)
next
  case DS
  with assms show ?thesis by (auto simp: re_S_def dest: two_digits_rest one_digit_rest)
next
  case (Lit c)
  with assms have "r1 = drop 1 s" by (auto simp: re_lit_def split: list.splits if_splits)
  then show ?thesis by blast
next
  case Spaces
  with assms show ?thesis by (auto simp: re_spaces_def)
next
  case Unsupported
  with assms show ?thesis by simp
qed

lemma step_Lit:
  assumes "(t1, r1) \<in> set (step (Lit c) s t)"
  shows "count_ci c s = Suc (count_ci c r1)"
  using assms by (auto simp: re_lit_def count_ci_def split: list.splits if_splits)

lemma match_format_literals:
  "match_format ds s t = Some (t', rest) \<Longrightarrow> lits c ds + count_ci c rest \<le> count_ci c s"
proof (induction ds arbitrary: s t)
  case Nil
  then show ?case by (simp add: lits_def)
next
  case (Cons d ds)
  from Cons.prems obtain t1 r1 where m: "(t1, r1) \<in> set (step d s t)"
    and r: "match_format ds r1 t1 = Some (t', rest)"
    by (auto dest!: first_some_Some)
  from Cons.IH [OF r] have ih: "lits c ds + count_ci c rest \<le> count_ci c r1" .
  show ?case
  proof (cases "d = Lit c")
    case True
    with m have "(t1, r1) \<in> set (step (Lit c) s t)" by simp
    then have "count_ci c s = Suc (count_ci c r1)" by (rule step_Lit)
    with ih True show ?thesis by (simp add: lits_def)
  next
    case False
    from step_rest [OF m] obtain k where "r1 = drop k s" ..
    then have "count_ci c r1 \<le> count_ci c s" by (simp add: count_ci_drop)
    with ih False show ?thesis by (simp add: lits_def)
  qed
qed

lemma strptime_needs_literals:
  assumes "count_ci c s < lits c (compile_format fmt)"
  shows "strptime s fmt = None"
proof (cases "match_format (compile_format fmt) s strptime_default")
  case None
  then show ?thesis by (simp add: strptime_def)
next
  case (Some res)
  obtain t' rest where "res = (t', rest)" by (cases res)
  with Some match_format_literals [of "compile_format fmt" s strptime_default t' rest c] assms
  show ?thesis by simp
qed

lemma lower_char_separators:
  "\<forall>c \<in> set ''-.:T''. lower_char c \<in> set ''-.:t''"
  by code_simp

lemma count_ci_digit:
  assumes "c \<in> set ''-.:T''"
  shows "count_ci c (digit_char n # r) = count_ci c r"
proof -
  from assms lower_char_separators have "lower_char c \<in> set ''-.:t''" by blast
  with digit_char_facts(3) [of n] have "digit_char n \<noteq> lower_char c" by auto
  then show ?thesis by (simp add: count_ci_def digit_char_facts)
qed

lemma count_ci_append: "count_ci c (a @ b) = count_ci c a + count_ci c b"
  by (simp add: count_ci_def)

lemma count_ci_zpad_2: "c \<in> set ''-.:T'' \<Longrightarrow> n < 100 \<Longrightarrow> count_ci c (zpad 2 n) = 0"
  by (simp add: zpad_2 count_ci_digit) (simp add: count_ci_def)

lemma count_ci_zpad_4: "c \<in> set ''-.:T'' \<Longrightarrow> n < 10000 \<Longrightarrow> count_ci c (zpad 4 n) = 0"
  by (simp add: zpad_4 count_ci_digit) (simp add: count_ci_def)

lemma lower_char_literals:
  "lower_char (CHR ''-'') = CHR ''-''" "lower_char (CHR ''.'') = CHR ''.''"
  "lower_char (CHR '':'') = CHR '':''" "lower_char (CHR ''T'') = CHR ''t''"
  "lower_char (CHR '' '') = CHR '' ''"
  by code_simp+

lemma count_ci_literals:
  "count_ci (CHR ''T'') (CHR ''-'' # r) = count_ci (CHR ''T'') r"
  "count_ci (CHR ''-'') (CHR ''.'' # r) = count_ci (CHR ''-'') r"
  "count_ci (CHR ''-'') (CHR '':'' # r) = count_ci (CHR ''-'') r"
  "count_ci (CHR ''-'') (CHR '' '' # r) = count_ci (CHR ''-'') r"
  "count_ci (CHR '':'') (CHR ''.'' # r) = count_ci (CHR '':'') r"
  "count_ci (CHR '':'') (CHR '' '' # r) = count_ci (CHR '':'') r"
  "count_ci (CHR '':'') (CHR '':'' # r) = Suc (count_ci (CHR '':'') r)"
  by (simp_all add: count_ci_def lower_char_literals)

lemma lits_formats:
  "lits (CHR ''T'') (compile_format ''%Y-%m-%dT%H:%M:%S'') = 1"
  "lits (CHR ''T'') (compile_format ''%Y-%m-%dT%H:%M'') = 1"
  "lits (CHR ''-'') (compile_format ''%Y-%m-%dT%H:%M:%S'') = 2"
  "lits (CHR ''-'') (compile_format ''%Y-%m-%dT%H:%M'') = 2"
  "lits (CHR ''-'') (compile_format ''%Y-%m-%d'') = 2"
  "lits (CHR '':'') (compile_format ''%d.%m.%Y %H:%M:%S'') = 2"
  "lits (CHR '':'') (compile_format ''%d.%m.%Y %H:%M'') = 1"
  by code_simp+

lemma text_counts:
  assumes "valid_date y m d"
  shows "count_ci (CHR ''T'') (ymd_text y m d) = 0"
    and "count_ci (CHR ''-'') (dmy_text y m d) = 0"
    and "count_ci (CHR '':'') (dmy_text y m d) = 0"
    and "valid_time h mi s \<Longrightarrow> count_ci (CHR ''-'') (dmy_text y m d @ '' '' @ hm_text h mi) = 0"
    and "valid_time h mi s \<Longrightarrow> count_ci (CHR '':'') (dmy_text y m d @ '' '' @ hm_text h mi) = 1"
    and "valid_time h mi s \<Longrightarrow> count_ci (CHR ''-'') (dmy_text y m d @ '' '' @ hms_text h mi s) = 0"
proof -
  note v = valid_dateD [OF assms]
  from v have lt: "m < 100" "d < 100" by simp_all
  note z = count_ci_append count_ci_zpad_2 count_ci_zpad_4 count_ci_literals v lt
  show "count_ci (CHR ''T'') (ymd_text y m d) = 0" unfolding ymd_text_def by (simp add: z)
  show "count_ci (CHR ''-'') (dmy_text y m d) = 0" unfolding dmy_text_def by (simp add: z)
  show "count_ci (CHR '':'') (dmy_text y m d) = 0" unfolding dmy_text_def by (simp add: z)
  {
    assume t: "valid_time h mi s"
    then have lt2: "h < 100" "mi < 100" "s < 100" by (auto simp: valid_time_def)
    show "count_ci (CHR ''-'') (dmy_text y m d @ '' '' @ hm_text h mi) = 0"
      unfolding dmy_text_def hm_text_def by (simp add: z lt2)
    show "count_ci (CHR '':'') (dmy_text y m d @ '' '' @ hm_text h mi) = 1"
      unfolding dmy_text_def hm_text_def by (simp add: z lt2)
    show "count_ci (CHR ''-'') (dmy_text y m d @ '' '' @ hms_text h mi s) = 0"
      unfolding dmy_text_def hms_text_def by (simp add: z lt2)
  }
qed

lemma isoformat_fields:
  assumes "microsecond t = 0" and "utcoffset t = None"
  shows "isoformat (CHR ''T'') t
           = normalized_text (year t) (month t) (day t) (hour t) (minute t) (second t)"
  using assms
  by (simp add: isoformat_def date_isoformat_def format_offset_def normalized_text_def
      ymd_text_def hms_text_def)

lemma try_patterns_miss:
  "strptime raw fmt = None \<Longrightarrow> try_patterns ((fmt, a) # ps) raw = try_patterns ps raw"
  by simp

lemma try_patterns_hit:
  assumes "parsed_fields (strptime raw fmt) y m d h mi s"
  shows "try_patterns ((fmt, a) # ps) raw
           = Some (if a then normalized_text y m d 0 0 0 else normalized_text y m d h mi s)"
proof -
  from assms obtain t where t: "strptime raw fmt = Some t" "year t = y" "month t = m" "day t = d"
    "hour t = h" "minute t = mi" "second t = s" "microsecond t = 0" "utcoffset t = None"
    by (auto simp: parsed_fields_def)
  then show ?thesis by (simp add: isoformat_fields)
qed

lemma text_ends:
  assumes "valid_date y m d"
  shows "\<exists>a r. ymd_text y m d = digit_char a # r" "\<exists>b. last (ymd_text y m d) = digit_char b"
    "\<exists>a r. dmy_text y m d = digit_char a # r" "\<exists>b. last (dmy_text y m d) = digit_char b"
proof -
  from valid_dateD [OF assms] have lt: "y < 10000" "m < 100" "d < 100" by simp_all
  show "\<exists>a r. ymd_text y m d = digit_char a # r"
    by (auto simp: ymd_text_def zpad_4 [OF lt(1)])
  show "\<exists>b. last (ymd_text y m d) = digit_char b"
    by (auto simp: ymd_text_def zpad_2 [OF lt(3)])
  show "\<exists>a r. dmy_text y m d = digit_char a # r"
    by (auto simp: dmy_text_def zpad_2 [OF lt(3)])
  show "\<exists>b. last (dmy_text y m d) = digit_char b"
    by (auto simp: dmy_text_def zpad_4 [OF lt(1)])
qed

lemma strip_digits:
  assumes "txt = digit_char a # r" and "last txt = digit_char b"
  shows "strip txt = txt"
  using assms by (intro strip_noop) (auto simp: digit_char_facts)

lemma time_ends:
  assumes "valid_time h mi s"
  shows "\<exists>b. last (x @ sep @ hm_text h mi) = digit_char b"
    "\<exists>b. last (x @ sep @ hms_text h mi s) = digit_char b"
proof -
  from assms have lt: "mi < 100" "s < 100" by (auto simp: valid_time_def)
  show "\<exists>b. last (x @ sep @ hm_text h mi) = digit_char b"
    by (auto simp: hm_text_def zpad_2 [OF lt(1)])
  show "\<exists>b. last (x @ sep @ hms_text h mi s) = digit_char b"
    by (auto simp: hms_text_def zpad_2 [OF lt(2)])
qed

lemma no_match:
  assumes "count_ci c raw = k" and "lits c (compile_format fmt) = n" and "k < n"
  shows "strptime raw fmt = None"
  using assms by (intro strptime_needs_literals [where c = c]) simp

lemma try_patterns_ymd:
  assumes "valid_date y m d"
  shows "try_patterns patterns (ymd_text y m d) = Some (normalized_text y m d 0 0 0)"
proof -
  let ?s = "ymd_text y m d"
  note c = text_counts(1) [OF assms]
  have 1: "strptime ?s ''%Y-%m-%dT%H:%M:%S'' = None"
    by (rule no_match [OF c lits_formats(1)]) simp
  have 2: "strptime ?s ''%Y-%m-%dT%H:%M'' = None"
    by (rule no_match [OF c lits_formats(2)]) simp
  show ?thesis
    unfolding patterns_def
    by (simp only: try_patterns_miss [OF 1] try_patterns_miss [OF 2]
        try_patterns_hit [OF strptime_ymd [OF assms]] if_True)
qed

lemma try_patterns_ymd_hms:
  assumes "valid_date y m d" and "valid_time h mi s"
  shows "try_patterns patterns (ymd_text y m d @ ''T'' @ hms_text h mi s)
           = Some (normalized_text y m d h mi s)"
  unfolding patterns_def
  by (simp only: try_patterns_hit [OF strptime_ymd_hms [OF assms]] if_False)

lemma try_patterns_dmy:
  assumes "valid_date y m d"
  shows "try_patterns patterns (dmy_text y m d) = Some (normalized_text y m d 0 0 0)"
proof -
  let ?s = "dmy_text y m d"
  note c = text_counts(2) [OF assms] and k = text_counts(3) [OF assms]
  have 1: "strptime ?s ''%Y-%m-%dT%H:%M:%S'' = None"
    by (rule no_match [OF c lits_formats(3)]) simp
  have 2: "strptime ?s ''%Y-%m-%dT%H:%M'' = None"
    by (rule no_match [OF c lits_formats(4)]) simp
  have 3: "strptime ?s ''%Y-%m-%d'' = None"
    by (rule no_match [OF c lits_formats(5)]) simp
  have 4: "strptime ?s ''%d.%m.%Y %H:%M:%S'' = None"
    by (rule no_match [OF k lits_formats(6)]) simp
  have 5: "strptime ?s ''%d.%m.%Y %H:%M'' = None"
    by (rule no_match [OF k lits_formats(7)]) simp
  show ?thesis
    unfolding patterns_def
    by (simp only: try_patterns_miss [OF 1] try_patterns_miss [OF 2] try_patterns_miss [OF 3]
        try_patterns_miss [OF 4] try_patterns_miss [OF 5]
        try_patterns_hit [OF strptime_dmy [OF assms]] if_True)
qed

lemma try_patterns_dmy_hm:
  assumes "valid_date y m d" and "valid_time h mi 0"
  shows "try_patterns patterns (dmy_text y m d @ '' '' @ hm_text h mi)
           = Some (normalized_text y m d h mi 0)"
proof -
  let ?s = "dmy_text y m d @ '' '' @ hm_text h mi"
  note c = text_counts(4) [OF assms] and k = text_counts(5) [OF assms]
  have 1: "strptime ?s ''%Y-%m-%dT%H:%M:%S'' = None"
    by (rule no_match [OF c lits_formats(3)]) simp
  have 2: "strptime ?s ''%Y-%m-%dT%H:%M'' = None"
    by (rule no_match [OF c lits_formats(4)]) simp
  have 3: "strptime ?s ''%Y-%m-%d'' = None"
    by (rule no_match [OF c lits_formats(5)]) simp
  have 4: "strptime ?s ''%d.%m.%Y %H:%M:%S'' = None"
    by (rule no_match [OF k lits_formats(6)]) simp
  show ?thesis
    unfolding patterns_def
    by (simp only: try_patterns_miss [OF 1] try_patterns_miss [OF 2] try_patterns_miss [OF 3]
        try_patterns_miss [OF 4]
        try_patterns_hit [OF strptime_dmy_hm [OF assms]] if_False)
qed

lemma try_patterns_dmy_hms:
  assumes "valid_date y m d" and "valid_time h mi s"
  shows "try_patterns patterns (dmy_text y m d @ '' '' @ hms_text h mi s)
           = Some (normalized_text y m d h mi s)"
proof -
  let ?s = "dmy_text y m d @ '' '' @ hms_text h mi s"
  note c = text_counts(6) [OF assms]
  have 1: "strptime ?s ''%Y-%m-%dT%H:%M:%S'' = None"
    by (rule no_match [OF c lits_formats(3)]) simp
  have 2: "strptime ?s ''%Y-%m-%dT%H:%M'' = None"
    by (rule no_match [OF c lits_formats(4)]) simp
  have 3: "strptime ?s ''%Y-%m-%d'' = None"
    by (rule no_match [OF c lits_formats(5)]) simp
  show ?thesis
    unfolding patterns_def
    by (simp only: try_patterns_miss [OF 1] try_patterns_miss [OF 2] try_patterns_miss [OF 3]
        try_patterns_hit [OF strptime_dmy_hms [OF assms]] if_False)
qed

lemma format_value_text:
  assumes "strip txt = txt" and "try_patterns patterns txt = Some r"
  shows "format_value (VStr txt) TDatetime = Inr (datetime_literal r)"
  using assms by (simp add: format_value_def normalize_datetime_def datetime_literal_def)

lemma strip_forms:
  assumes "valid_date y m d" and "valid_time h mi s"
  shows "strip (ymd_text y m d) = ymd_text y m d"
    and "strip (ymd_text y m d @ ''T'' @ hms_text h mi s) = ymd_text y m d @ ''T'' @ hms_text h mi s"
    and "strip (dmy_text y m d) = dmy_text y m d"
    and "strip (dmy_text y m d @ '' '' @ hm_text h mi) = dmy_text y m d @ '' '' @ hm_text h mi"
    and "strip (dmy_text y m d @ '' '' @ hms_text h mi s) = dmy_text y m d @ '' '' @ hms_text h mi s"
proof -
  note e = text_ends [OF assms(1)]
  from e(1) obtain a r where y: "ymd_text y m d = digit_char a # r" by blast
  from e(2) obtain a' where y': "last (ymd_text y m d) = digit_char a'" by blast
  from e(3) obtain b q where d: "dmy_text y m d = digit_char b # q" by blast
  from e(4) obtain b' where d': "last (dmy_text y m d) = digit_char b'" by blast
  show "strip (ymd_text y m d) = ymd_text y m d" using y y' by (rule strip_digits)
  show "strip (dmy_text y m d) = dmy_text y m d" using d d' by (rule strip_digits)
  show "strip (ymd_text y m d @ ''T'' @ hms_text h mi s) = ymd_text y m d @ ''T'' @ hms_text h mi s"
  proof -
    from time_ends(2) [OF assms(2)] obtain c
      where "last (ymd_text y m d @ ''T'' @ hms_text h mi s) = digit_char c" by blast
    moreover have "ymd_text y m d @ ''T'' @ hms_text h mi s
        = digit_char a # (r @ ''T'' @ hms_text h mi s)" by (simp add: y)
    ultimately show ?thesis by (intro strip_digits)
  qed
  show "strip (dmy_text y m d @ '' '' @ hm_text h mi) = dmy_text y m d @ '' '' @ hm_text h mi"
  proof -
    from time_ends(1) [OF assms(2)] obtain c
      where "last (dmy_text y m d @ '' '' @ hm_text h mi) = digit_char c" by blast
    moreover have "dmy_text y m d @ '' '' @ hm_text h mi
        = digit_char b # (q @ '' '' @ hm_text h mi)" by (simp add: d)
    ultimately show ?thesis by (intro strip_digits)
  qed
  show "strip (dmy_text y m d @ '' '' @ hms_text h mi s) = dmy_text y m d @ '' '' @ hms_text h mi s"
  proof -
    from time_ends(2) [OF assms(2)] obtain c
      where "last (dmy_text y m d @ '' '' @ hms_text h mi s) = digit_char c" by blast
    moreover have "dmy_text y m d @ '' '' @ hms_text h mi s
        = digit_char b # (q @ '' '' @ hms_text h mi s)" by (simp add: d)
    ultimately show ?thesis by (intro strip_digits)
  qed
qed

lemma try_patterns_None:
  "\<forall>(fmt, a) \<in> set ps. strptime raw fmt = None \<Longrightarrow> try_patterns ps raw = None"
  by (induction ps raw rule: try_patterns.induct) auto

lemma format_value_native:
  "utcoffset t = None \<Longrightarrow>
     format_value (VDateTime t) TDatetime
       = Inr (datetime_literal
                (normalized_text (year t) (month t) (day t) (hour t) (minute t) (second t)))"
  "format_value (VDate dd) TDatetime
     = Inr (datetime_literal (normalized_text (year dd) (month dd) (day dd) 0 0 0))"
  by (simp_all add: format_value_def normalize_datetime_def datetime_literal_def isoformat_fields)

lemma format_value_unrecognized:
  assumes "\<not> is_native v" and "\<forall>(fmt, a) \<in> set patterns. strptime (strip (py_str v)) fmt = None"
    and "CHR ''T'' \<notin> set (strip (py_str v))"
  shows "format_value v TDatetime
           = Inl (ValueError (''Unrecognized datetime format: '' @ py_str v))"
  using assms(1,3) try_patterns_None [OF assms(2)]
  by (cases v) (simp_all add: format_value_def normalize_datetime_def is_native_def)

text \<open>
  Claim C4, as amended. Formatting a value of type \<open>datetime\<close> accepts a naive native
  date and time or a native date, and the texts \<open>YYYY-MM-DD\<close>,
  \<open>YYYY-MM-DDTHH:MM:SS\<close>, \<open>DD.MM.YYYY\<close>, \<open>DD.MM.YYYY HH:MM\<close> and
  \<open>DD.MM.YYYY HH:MM:SS\<close> of a valid date and time, and renders them as
  \<open>datetime'YYYY-MM-DDTHH:MM:SS'\<close>, a missing time as midnight and missing seconds as
  \<open>00\<close>. For a value that is not native, whose text matches none of the six patterns and
  holds no \<open>T\<close>, it raises the error that names the value.
\<close>

theorem datetime_formatting:
  "(utcoffset t = None
      \<longrightarrow> format_value (VDateTime t) TDatetime
           = Inr (datetime_literal
                    (normalized_text (year t) (month t) (day t) (hour t) (minute t) (second t))))
   \<and> format_value (VDate dd) TDatetime
       = Inr (datetime_literal (normalized_text (year dd) (month dd) (day dd) 0 0 0))
   \<and> (valid_date y m d \<and> valid_time h mi s
        \<longrightarrow> format_value (VStr (ymd_text y m d)) TDatetime
             = Inr (datetime_literal (normalized_text y m d 0 0 0))
          \<and> format_value (VStr (ymd_text y m d @ ''T'' @ hms_text h mi s)) TDatetime
             = Inr (datetime_literal (normalized_text y m d h mi s))
          \<and> format_value (VStr (dmy_text y m d)) TDatetime
             = Inr (datetime_literal (normalized_text y m d 0 0 0))
          \<and> format_value (VStr (dmy_text y m d @ '' '' @ hm_text h mi)) TDatetime
             = Inr (datetime_literal (normalized_text y m d h mi 0))
          \<and> format_value (VStr (dmy_text y m d @ '' '' @ hms_text h mi s)) TDatetime
             = Inr (datetime_literal (normalized_text y m d h mi s)))
   \<and> (\<not> is_native v \<and> (\<forall>(fmt, a) \<in> set patterns. strptime (strip (py_str v)) fmt = None)
        \<and> CHR ''T'' \<notin> set (strip (py_str v))
        \<longrightarrow> format_value v TDatetime
             = Inl (ValueError (''Unrecognized datetime format: '' @ py_str v)))"
proof (intro conjI impI)
  assume "utcoffset t = None"
  then show "format_value (VDateTime t) TDatetime
           = Inr (datetime_literal
                    (normalized_text (year t) (month t) (day t) (hour t) (minute t) (second t)))"
    by (rule format_value_native)
next
  show "format_value (VDate dd) TDatetime
       = Inr (datetime_literal (normalized_text (year dd) (month dd) (day dd) 0 0 0))"
    by (rule format_value_native)
next
  assume a: "valid_date y m d \<and> valid_time h mi s"
  then have vd: "valid_date y m d" and vt: "valid_time h mi s" by simp_all
  from vt have vt0: "valid_time h mi 0" by (simp add: valid_time_def)
  note st = strip_forms [OF vd vt]
  show "format_value (VStr (ymd_text y m d)) TDatetime
             = Inr (datetime_literal (normalized_text y m d 0 0 0))"
    using st(1) try_patterns_ymd [OF vd] by (rule format_value_text)
  show "format_value (VStr (ymd_text y m d @ ''T'' @ hms_text h mi s)) TDatetime
             = Inr (datetime_literal (normalized_text y m d h mi s))"
    using st(2) try_patterns_ymd_hms [OF vd vt] by (rule format_value_text)
  show "format_value (VStr (dmy_text y m d)) TDatetime
             = Inr (datetime_literal (normalized_text y m d 0 0 0))"
    using st(3) try_patterns_dmy [OF vd] by (rule format_value_text)
  show "format_value (VStr (dmy_text y m d @ '' '' @ hm_text h mi)) TDatetime
             = Inr (datetime_literal (normalized_text y m d h mi 0))"
    using st(4) try_patterns_dmy_hm [OF vd vt0] by (rule format_value_text)
  show "format_value (VStr (dmy_text y m d @ '' '' @ hms_text h mi s)) TDatetime
             = Inr (datetime_literal (normalized_text y m d h mi s))"
    using st(5) try_patterns_dmy_hms [OF vd vt] by (rule format_value_text)
next
  assume "\<not> is_native v \<and> (\<forall>(fmt, a) \<in> set patterns. strptime (strip (py_str v)) fmt = None)
        \<and> CHR ''T'' \<notin> set (strip (py_str v))"
  then show "format_value v TDatetime
             = Inl (ValueError (''Unrecognized datetime format: '' @ py_str v))"
    by (intro format_value_unrecognized) simp_all
qed

text \<open>
  The claim as stated fails on a text that matches no pattern and holds a \<open>T\<close>: the
  fallback of the builder splits it at the \<open>T\<close> and pads the time, and no error is
  raised. It also fails on a native value with a UTC offset, which is rendered with the
  offset after the seconds.
\<close>

theorem datetime_formatting_counterexample:
  "try_patterns patterns (strip (py_str (VStr ''Tuesday''))) = None
   \<and> format_value (VStr ''Tuesday'') TDatetime
       = Inr (''datetime'' @ [squote] @ ''Tuesday:00:00'' @ [squote])
   \<and> format_value
         (VDateTime \<lparr>year = 2024, month = 1, day = 15, hour = 10, minute = 30, second = 45,
                     microsecond = 0, utcoffset = Some 10800\<rparr>) TDatetime
       = Inr (''datetime'' @ [squote] @ ''2024-01-15T10:30:45+03:00'' @ [squote])"
  by code_simp

text \<open>
  The pattern \<open>%Y-%m-%dT%H:%M\<close> carries the flag that resets the time: a text
  \<open>YYYY-MM-DDTHH:MM\<close> is rendered at midnight, unlike \<open>DD.MM.YYYY HH:MM\<close>.
\<close>

lemma iso_minutes_lose_time:
  "format_value (VStr ''2024-01-15T10:30'') TDatetime
     = Inr (''datetime'' @ [squote] @ ''2024-01-15T00:00:00'' @ [squote])
   \<and> format_value (VStr ''15.01.2024 10:30'') TDatetime
     = Inr (''datetime'' @ [squote] @ ''2024-01-15T10:30:00'' @ [squote])"
  by code_simp

theorem datetime_formatting_witness:
  "format_value
     (VDateTime \<lparr>year = 2024, month = 1, day = 15, hour = 10, minute = 30, second = 45,
                 microsecond = 123, utcoffset = None\<rparr>) TDatetime
     = Inr (''datetime'' @ [squote] @ ''2024-01-15T10:30:45'' @ [squote])
   \<and> format_value (VStr ''2024-01-15'') TDatetime
     = Inr (''datetime'' @ [squote] @ ''2024-01-15T00:00:00'' @ [squote])
   \<and> format_value (VStr ''15.01.2024 10:30'') TDatetime
     = Inr (''datetime'' @ [squote] @ ''2024-01-15T10:30:00'' @ [squote])
   \<and> format_value (VStr ''next week'') TDatetime
     = Inl (ValueError ''Unrecognized datetime format: next week'')"
proof -
  let ?t = "\<lparr>year = 2024, month = 1, day = 15, hour = 10, minute = 30, second = 45,
             microsecond = 123, utcoffset = None\<rparr>"
  let ?v = "VStr ''next week''"
  have vd: "valid_date 2024 1 15" by code_simp
  have vt: "valid_time 10 30 45" by code_simp
  have nn: "\<not> is_native ?v" by (simp add: is_native_def)
  have np: "\<forall>(fmt, a) \<in> set patterns. strptime (strip (py_str ?v)) fmt = None" by code_simp
  have nt: "CHR ''T'' \<notin> set (strip (py_str ?v))" by code_simp
  have texts: "ymd_text 2024 1 15 = ''2024-01-15''"
    "dmy_text 2024 1 15 @ '' '' @ hm_text 10 30 = ''15.01.2024 10:30''"
    "datetime_literal (normalized_text 2024 1 15 10 30 45)
       = ''datetime'' @ [squote] @ ''2024-01-15T10:30:45'' @ [squote]"
    "datetime_literal (normalized_text 2024 1 15 0 0 0)
       = ''datetime'' @ [squote] @ ''2024-01-15T00:00:00'' @ [squote]"
    "datetime_literal (normalized_text 2024 1 15 10 30 0)
       = ''datetime'' @ [squote] @ ''2024-01-15T10:30:00'' @ [squote]"
    by code_simp+
  have f: "year ?t = 2024" "month ?t = 1" "day ?t = 15" "hour ?t = 10" "minute ?t = 30"
    "second ?t = 45" "utcoffset ?t = None" "py_str ?v = ''next week''"
    by simp_all
  have msg: "''Unrecognized datetime format: '' @ ''next week''
      = ''Unrecognized datetime format: next week''" by simp
  from datetime_formatting [of ?t "\<lparr>year = 2024, month = 1, day = 15\<rparr>" 2024 1 15 10 30 45 ?v]
    vd vt nn np nt
  show ?thesis unfolding f texts msg by blast
qed

end
